theory Spec2Isabelle
  imports Main "HOL-Library.Word"
begin

section \<open>Value types of the PredictionMarkets contract\<close>

text \<open>
  The contract under verification is the Solidity contract \<open>PredictionMarkets\<close>
  (compiled with \<open>pragma solidity ^0.8.24\<close>).  Its integers are machine words;
  arithmetic on them is checked: an overflowing \<open>+\<close>, \<open>-\<close> or \<open>*\<close> reverts the
  call with \<open>Panic(0x11)\<close>, a division by zero with \<open>Panic(0x12)\<close>.
\<close>

type_synonym uint256 = "256 word"
type_synonym uint64 = "64 word"
type_synonym address = "160 word"

datatype error =
    MarketDoesNotExist
  | MarketEnded
  | MarketNotEnded
  | MarketAlreadyResolved
  | MarketNotResolved
  | DeadlineMustBeFuture
  | BetTooSmall
  | BetTooLarge
  | InvalidOutcome
  | NoWinnings
  | AlreadyClaimed
  | OwnableUnauthorizedAccount address
  | ReentrancyGuardReentrantCall
  | Panic nat
  | ErrorString string
  | SafeERC20FailedOperation

definition checked_add :: "uint256 \<Rightarrow> uint256 \<Rightarrow> error + uint256" where
  "checked_add a b = (if unat a + unat b < 2 ^ 256 then Inr (a + b) else Inl (Panic 17))"

definition checked_sub :: "uint256 \<Rightarrow> uint256 \<Rightarrow> error + uint256" where
  "checked_sub a b = (if b \<le> a then Inr (a - b) else Inl (Panic 17))"

definition checked_mul :: "uint256 \<Rightarrow> uint256 \<Rightarrow> error + uint256" where
  "checked_mul a b = (if unat a * unat b < 2 ^ 256 then Inr (a * b) else Inl (Panic 17))"

definition checked_div :: "uint256 \<Rightarrow> uint256 \<Rightarrow> error + uint256" where
  "checked_div a b = (if b = 0 then Inl (Panic 18) else Inr (a div b))"

text \<open>Sequencing of fallible steps: the first revert ends the call.\<close>

definition and_then :: "error + 'a \<Rightarrow> ('a \<Rightarrow> error + 'b) \<Rightarrow> error + 'b" where
  "and_then r f = (case r of Inl e \<Rightarrow> Inl e | Inr v \<Rightarrow> f v)"

section \<open>Storage\<close>

record Market =
  question :: string
  deadline :: uint64
  resolved :: bool
  outcomeYes :: bool
  yesPool :: uint256
  noPool :: uint256

text \<open>The value every slot of the \<open>markets\<close> mapping holds before it is written.\<close>

definition empty_market :: Market where
  "empty_market = \<lparr>question = [], deadline = 0, resolved = False, outcomeYes = False,
     yesPool = 0, noPool = 0\<rparr>"

text \<open>
  Modelled from the spec: the external custody token.  The contract only holds an
  \<open>IERC20\<close> handle and calls it through OpenZeppelin's \<open>SafeERC20\<close>; neither is
  under \<open>src/\<close>.  The model is a plain ledger of balances and allowances: a pull or a
  transfer that the ledger cannot cover fails, and then the whole operation fails.
\<close>

record erc20 =
  balanceOf :: "address \<Rightarrow> nat"
  allowance :: "address \<Rightarrow> address \<Rightarrow> nat"

definition erc20_move :: "erc20 \<Rightarrow> address \<Rightarrow> address \<Rightarrow> nat \<Rightarrow> erc20" where
  "erc20_move t src dst v =
     (let b = (balanceOf t)(src := balanceOf t src - v)
      in t\<lparr>balanceOf := b(dst := b dst + v)\<rparr>)"

definition safeTransfer :: "erc20 \<Rightarrow> address \<Rightarrow> address \<Rightarrow> uint256 \<Rightarrow> error + erc20" where
  "safeTransfer t self dst v =
     (if balanceOf t self < unat v then Inl SafeERC20FailedOperation
      else Inr (erc20_move t self dst (unat v)))"

definition safeTransferFrom ::
  "erc20 \<Rightarrow> address \<Rightarrow> address \<Rightarrow> address \<Rightarrow> uint256 \<Rightarrow> error + erc20" where
  "safeTransferFrom t self src dst v =
     (if allowance t src self < unat v \<or> balanceOf t src < unat v
      then Inl SafeERC20FailedOperation
      else Inr ((erc20_move t src dst (unat v))
             \<lparr>allowance := (allowance t)(src := (allowance t src)(self := allowance t src self - unat v))\<rparr>))"

text \<open>
  The storage of the contract, with the state of its two base contracts (\<open>owner\<close> of
  \<open>Ownable\<close>, the \<open>entered\<close> status of \<open>ReentrancyGuard\<close>), its own address and the
  ledger of the token it was deployed with.
\<close>

record state =
  owner :: address
  entered :: bool
  this :: address
  token :: erc20
  marketCount :: uint256
  minBetSize :: uint256
  maxBetSize :: uint256
  platformFeeBps :: uint256
  accumulatedFees :: uint256
  markets :: "uint256 \<Rightarrow> Market"
  yesStakes :: "uint256 \<Rightarrow> address \<Rightarrow> uint256"
  noStakes :: "uint256 \<Rightarrow> address \<Rightarrow> uint256"
  claimed :: "uint256 \<Rightarrow> address \<Rightarrow> bool"

record env =
  msg_sender :: address
  block_timestamp :: uint256

definition MAX_FEE_BPS :: uint256 where
  "MAX_FEE_BPS = 1000"

definition BPS_DENOMINATOR :: uint256 where
  "BPS_DENOMINATOR = 10000"

definition constructor :: "address \<Rightarrow> address \<Rightarrow> erc20 \<Rightarrow> uint256 \<Rightarrow> uint256 \<Rightarrow> state" where
  "constructor deployer self tok min_bet max_bet =
     \<lparr>owner = deployer, entered = False, this = self, token = tok,
      marketCount = 0, minBetSize = min_bet, maxBetSize = max_bet,
      platformFeeBps = 200, accumulatedFees = 0,
      markets = (\<lambda>_. empty_market),
      yesStakes = (\<lambda>_ _. 0), noStakes = (\<lambda>_ _. 0), claimed = (\<lambda>_ _. False)\<rparr>"

section \<open>Modifiers\<close>

text \<open>
  Modelled from the spec: the \<open>onlyOwner\<close> and \<open>nonReentrant\<close> modifiers come from
  OpenZeppelin's \<open>Ownable\<close> and \<open>ReentrancyGuard\<close>, which are not under \<open>src/\<close>.
  \<open>onlyOwner\<close> checks the caller first, against the single owner fixed at construction;
  \<open>nonReentrant\<close> fails while the lock is held, takes it for the body and releases it
  afterwards.
\<close>

definition onlyOwner :: "env \<Rightarrow> (state \<Rightarrow> error + state) \<Rightarrow> state \<Rightarrow> error + state" where
  "onlyOwner e body s =
     (if msg_sender e \<noteq> owner s then Inl (OwnableUnauthorizedAccount (msg_sender e))
      else body s)"

definition nonReentrant :: "(state \<Rightarrow> error + state) \<Rightarrow> state \<Rightarrow> error + state" where
  "nonReentrant body s =
     (if entered s then Inl ReentrancyGuardReentrantCall
      else and_then (body (s\<lparr>entered := True\<rparr>)) (\<lambda>s'. Inr (s'\<lparr>entered := False\<rparr>)))"

section \<open>View functions\<close>

definition getMarket ::
  "state \<Rightarrow> uint256 \<Rightarrow> string \<times> uint64 \<times> bool \<times> bool \<times> uint256 \<times> uint256" where
  "getMarket s marketId =
     (let m = markets s marketId
      in (question m, deadline m, resolved m, outcomeYes m, yesPool m, noPool m))"

definition getOdds :: "state \<Rightarrow> uint256 \<Rightarrow> error + (uint256 \<times> uint256)" where
  "getOdds s marketId =
     (let market = markets s marketId
      in and_then (checked_add (yesPool market) (noPool market)) (\<lambda>total.
         if total = 0 then Inr (50, 50)
         else and_then (checked_mul (yesPool market) 100) (\<lambda>n.
              and_then (checked_div n total) (\<lambda>yesPercent.
              and_then (checked_sub 100 yesPercent) (\<lambda>noPercent.
              Inr (yesPercent, noPercent))))))"

definition getUserStakes :: "state \<Rightarrow> uint256 \<Rightarrow> address \<Rightarrow> uint256 \<times> uint256" where
  "getUserStakes s marketId user = (yesStakes s marketId user, noStakes s marketId user)"

definition calculatePayout :: "state \<Rightarrow> uint256 \<Rightarrow> address \<Rightarrow> error + uint256" where
  "calculatePayout s marketId user =
     (let market = markets s marketId
      in if \<not> resolved market then Inr 0
         else and_then (checked_add (yesPool market) (noPool market)) (\<lambda>totalPool.
           if totalPool = 0 then Inr 0
           else if outcomeYes market then
             (let userStake = yesStakes s marketId user
              in if userStake = 0 \<or> yesPool market = 0 then Inr 0
                 else and_then (checked_mul userStake totalPool) (\<lambda>n.
                      checked_div n (yesPool market)))
           else
             (let userStake = noStakes s marketId user
              in if userStake = 0 \<or> noPool market = 0 then Inr 0
                 else and_then (checked_mul userStake totalPool) (\<lambda>n.
                      checked_div n (noPool market)))))"

definition calculatePayoutAfterFee :: "state \<Rightarrow> uint256 \<Rightarrow> address \<Rightarrow> error + uint256" where
  "calculatePayoutAfterFee s marketId user =
     and_then (calculatePayout s marketId user) (\<lambda>payout.
       if payout = 0 then Inr 0
       else and_then (checked_mul payout (platformFeeBps s)) (\<lambda>n.
            and_then (checked_div n BPS_DENOMINATOR) (\<lambda>fee.
            checked_sub payout fee)))"

section \<open>State-changing functions\<close>

definition createMarket :: "string \<Rightarrow> uint64 \<Rightarrow> env \<Rightarrow> state \<Rightarrow> error + (uint256 \<times> state)" where
  "createMarket q d e s =
     (if ucast d \<le> block_timestamp e then Inl DeadlineMustBeFuture
      else and_then (checked_add (marketCount s) 1) (\<lambda>marketId.
        Inr (marketId,
             s\<lparr>marketCount := marketId,
               markets := (markets s)(marketId :=
                 \<lparr>question = q, deadline = d, resolved = False, outcomeYes = False,
                  yesPool = 0, noPool = 0\<rparr>)\<rparr>)))"

text \<open>The internal function \<open>_placeBet\<close>, shared by \<open>betYes\<close> and \<open>betNo\<close>.\<close>

definition placeBet :: "uint256 \<Rightarrow> uint256 \<Rightarrow> bool \<Rightarrow> env \<Rightarrow> state \<Rightarrow> error + state" where
  "placeBet marketId amount isYes e s =
     (let market = markets s marketId
      in if deadline market = 0 then Inl MarketDoesNotExist
         else if resolved market then Inl MarketAlreadyResolved
         else if block_timestamp e \<ge> ucast (deadline market) then Inl MarketEnded
         else if amount < minBetSize s then Inl BetTooSmall
         else if maxBetSize s > 0 \<and> amount > maxBetSize s then Inl BetTooLarge
         else and_then (safeTransferFrom (token s) (this s) (msg_sender e) (this s) amount) (\<lambda>t.
           if isYes then
             and_then (checked_add (yesPool market) amount) (\<lambda>pool.
             and_then (checked_add (yesStakes s marketId (msg_sender e)) amount) (\<lambda>stake.
               Inr (s\<lparr>token := t,
                      markets := (markets s)(marketId := market\<lparr>yesPool := pool\<rparr>),
                      yesStakes := (yesStakes s)(marketId :=
                        (yesStakes s marketId)(msg_sender e := stake))\<rparr>)))
           else
             and_then (checked_add (noPool market) amount) (\<lambda>pool.
             and_then (checked_add (noStakes s marketId (msg_sender e)) amount) (\<lambda>stake.
               Inr (s\<lparr>token := t,
                      markets := (markets s)(marketId := market\<lparr>noPool := pool\<rparr>),
                      noStakes := (noStakes s)(marketId :=
                        (noStakes s marketId)(msg_sender e := stake))\<rparr>)))))"

definition betYes :: "uint256 \<Rightarrow> uint256 \<Rightarrow> env \<Rightarrow> state \<Rightarrow> error + state" where
  "betYes marketId amount e = nonReentrant (placeBet marketId amount True e)"

definition betNo :: "uint256 \<Rightarrow> uint256 \<Rightarrow> env \<Rightarrow> state \<Rightarrow> error + state" where
  "betNo marketId amount e = nonReentrant (placeBet marketId amount False e)"

definition resolveMarket :: "uint256 \<Rightarrow> bool \<Rightarrow> env \<Rightarrow> state \<Rightarrow> error + state" where
  "resolveMarket marketId outcome e =
     onlyOwner e (\<lambda>s.
       let market = markets s marketId
       in if deadline market = 0 then Inl MarketDoesNotExist
          else if resolved market then Inl MarketAlreadyResolved
          else if block_timestamp e < ucast (deadline market) then Inl MarketNotEnded
          else Inr (s\<lparr>markets := (markets s)(marketId :=
                        market\<lparr>resolved := True, outcomeYes := outcome\<rparr>)\<rparr>))"

definition claim_body :: "uint256 \<Rightarrow> env \<Rightarrow> state \<Rightarrow> error + state" where
  "claim_body marketId e s =
     (let market = markets s marketId
      in if deadline market = 0 then Inl MarketDoesNotExist
         else if \<not> resolved market then Inl MarketNotResolved
         else if claimed s marketId (msg_sender e) then Inl AlreadyClaimed
         else and_then (calculatePayout s marketId (msg_sender e)) (\<lambda>payout.
           if payout = 0 then Inl NoWinnings
           else
             (let s1 = s\<lparr>claimed := (claimed s)(marketId :=
                          (claimed s marketId)(msg_sender e := True))\<rparr>
              in and_then (checked_mul payout (platformFeeBps s1)) (\<lambda>n.
                 and_then (checked_div n BPS_DENOMINATOR) (\<lambda>fee.
                 and_then (checked_sub payout fee) (\<lambda>userPayout.
                 and_then (checked_add (accumulatedFees s1) fee) (\<lambda>fees.
                   (let s2 = s1\<lparr>accumulatedFees := fees\<rparr>
                    in and_then (safeTransfer (token s2) (this s2) (msg_sender e) userPayout)
                         (\<lambda>t. Inr (s2\<lparr>token := t\<rparr>))))))))))"

definition claim :: "uint256 \<Rightarrow> env \<Rightarrow> state \<Rightarrow> error + state" where
  "claim marketId e = nonReentrant (claim_body marketId e)"

definition withdrawFees :: "address \<Rightarrow> env \<Rightarrow> state \<Rightarrow> error + state" where
  "withdrawFees dst e =
     onlyOwner e (\<lambda>s.
       let fees = accumulatedFees s
       in if fees = 0 then Inl NoWinnings
          else
            (let s1 = s\<lparr>accumulatedFees := 0\<rparr>
             in and_then (safeTransfer (token s1) (this s1) dst fees)
                  (\<lambda>t. Inr (s1\<lparr>token := t\<rparr>))))"

definition setFee :: "uint256 \<Rightarrow> env \<Rightarrow> state \<Rightarrow> error + state" where
  "setFee newFeeBps e =
     onlyOwner e (\<lambda>s.
       if \<not> newFeeBps \<le> MAX_FEE_BPS then Inl (ErrorString ''Fee too high'')
       else Inr (s\<lparr>platformFeeBps := newFeeBps\<rparr>))"

definition setBetLimits :: "uint256 \<Rightarrow> uint256 \<Rightarrow> env \<Rightarrow> state \<Rightarrow> error + state" where
  "setBetLimits min_bet max_bet e =
     onlyOwner e (\<lambda>s. Inr (s\<lparr>minBetSize := min_bet, maxBetSize := max_bet\<rparr>))"

section \<open>The external interface\<close>

datatype call =
    CreateMarket string uint64
  | BetYes uint256 uint256
  | BetNo uint256 uint256
  | ResolveMarket uint256 bool
  | Claim uint256
  | WithdrawFees address
  | SetFee uint256
  | SetBetLimits uint256 uint256
  | GetMarket uint256
  | GetOdds uint256
  | GetUserStakes uint256 address
  | CalculatePayout uint256 address
  | CalculatePayoutAfterFee uint256 address

datatype retval =
    RNone
  | RUint uint256
  | RPair uint256 uint256
  | RMarket string uint64 bool bool uint256 uint256

definition no_return :: "error + state \<Rightarrow> error + (retval \<times> state)" where
  "no_return r = and_then r (\<lambda>s'. Inr (RNone, s'))"

definition view_uint :: "state \<Rightarrow> error + uint256 \<Rightarrow> error + (retval \<times> state)" where
  "view_uint s r = and_then r (\<lambda>v. Inr (RUint v, s))"

fun dispatch :: "call \<Rightarrow> env \<Rightarrow> state \<Rightarrow> error + (retval \<times> state)" where
  "dispatch (CreateMarket q d) e s =
     and_then (createMarket q d e s) (\<lambda>(marketId, s'). Inr (RUint marketId, s'))"
| "dispatch (BetYes m a) e s = no_return (betYes m a e s)"
| "dispatch (BetNo m a) e s = no_return (betNo m a e s)"
| "dispatch (ResolveMarket m b) e s = no_return (resolveMarket m b e s)"
| "dispatch (Claim m) e s = no_return (claim m e s)"
| "dispatch (WithdrawFees dst) e s = no_return (withdrawFees dst e s)"
| "dispatch (SetFee n) e s = no_return (setFee n e s)"
| "dispatch (SetBetLimits lo hi) e s = no_return (setBetLimits lo hi e s)"
| "dispatch (GetMarket m) e s =
     (case getMarket s m of (q, d, r, b, y, n) \<Rightarrow> Inr (RMarket q d r b y n, s))"
| "dispatch (GetOdds m) e s = and_then (getOdds s m) (\<lambda>(y, n). Inr (RPair y n, s))"
| "dispatch (GetUserStakes m u) e s =
     (case getUserStakes s m u of (y, n) \<Rightarrow> Inr (RPair y n, s))"
| "dispatch (CalculatePayout m u) e s = view_uint s (calculatePayout s m u)"
| "dispatch (CalculatePayoutAfterFee m u) e s = view_uint s (calculatePayoutAfterFee s m u)"

text \<open>
  A call is a transaction of its own: when it reverts, the storage is what it was before
  the call; when it returns, the storage is what the body left.
\<close>

definition execute :: "call \<Rightarrow> env \<Rightarrow> state \<Rightarrow> (error + retval) \<times> state" where
  "execute c e s = (case dispatch c e s of Inl x \<Rightarrow> (Inl x, s) | Inr (r, s') \<Rightarrow> (Inr r, s'))"

text \<open>
  A history of the deployed contract: calls of its functions, interleaved with activity
  on the token contract by anybody else (transfers, approvals), which replaces the
  token ledger and touches nothing of this contract's storage.
\<close>

datatype step = Tx env call | TokenActivity erc20

fun apply_step :: "step \<Rightarrow> state \<Rightarrow> state" where
  "apply_step (Tx e c) s = snd (execute c e s)"
| "apply_step (TokenActivity t) s = s\<lparr>token := t\<rparr>"

fun run :: "step list \<Rightarrow> state \<Rightarrow> state" where
  "run [] s = s"
| "run (x # xs) s = run xs (apply_step x s)"

inductive reachable :: "state \<Rightarrow> bool" where
  deployed: "reachable (constructor deployer self tok min_bet max_bet)"
| stepped: "reachable s \<Longrightarrow> reachable (apply_step x s)"

section \<open>Specification vocabulary\<close>

text \<open>
  The words of the specification that are not functions of the contract: the winning
  pool and the winning stake are the ones on the side of the fixed outcome, the total
  pool is \<open>yesPool + noPool\<close> as a number, and \<open>payout_of\<close> is what
  \<open>calculatePayout\<close> pays (nothing when the call reverts).
\<close>

definition winning_pool :: "Market \<Rightarrow> uint256" where
  "winning_pool mk = (if outcomeYes mk then yesPool mk else noPool mk)"

definition winning_stake :: "state \<Rightarrow> uint256 \<Rightarrow> address \<Rightarrow> uint256" where
  "winning_stake s m u = (if outcomeYes (markets s m) then yesStakes s m u else noStakes s m u)"

definition total_pool :: "Market \<Rightarrow> nat" where
  "total_pool mk = unat (yesPool mk) + unat (noPool mk)"

definition payout_of :: "state \<Rightarrow> uint256 \<Rightarrow> address \<Rightarrow> nat" where
  "payout_of s m u = (case calculatePayout s m u of Inl _ \<Rightarrow> 0 | Inr p \<Rightarrow> unat p)"

text \<open>
  The amount a step adds to the bets accepted for market \<open>m\<close>: the amount of a
  \<open>betYes\<close> or \<open>betNo\<close> on \<open>m\<close> that returns, and 0 for every other step.
\<close>

fun accepted :: "uint256 \<Rightarrow> step \<Rightarrow> state \<Rightarrow> nat" where
  "accepted m (Tx e (BetYes m' a)) s =
     (if m' = m then (case betYes m' a e s of Inl _ \<Rightarrow> 0 | Inr _ \<Rightarrow> unat a) else 0)"
| "accepted m (Tx e (BetNo m' a)) s =
     (if m' = m then (case betNo m' a e s of Inl _ \<Rightarrow> 0 | Inr _ \<Rightarrow> unat a) else 0)"
| "accepted m _ s = 0"

fun accepted_total :: "uint256 \<Rightarrow> step list \<Rightarrow> state \<Rightarrow> nat" where
  "accepted_total m [] s = 0"
| "accepted_total m (x # xs) s = accepted m x s + accepted_total m xs (apply_step x s)"

text \<open>
  The invariant of the reachable states: the reentrancy lock is free between calls;
  ids above the counter are unused; an unused slot holds the zero record; for every
  market the stakes of all accounts on a side sum to the pool of that side; and whoever
  has claimed did so on a resolved market with a non-zero winning stake and pool.
\<close>

definition invariant :: "state \<Rightarrow> bool" where
  "invariant s \<longleftrightarrow>
     \<not> entered s \<and>
     (\<forall>m. marketCount s < m \<longrightarrow> deadline (markets s m) = 0) \<and>
     (\<forall>m. deadline (markets s m) = 0 \<longrightarrow> markets s m = empty_market) \<and>
     (\<forall>m. (\<Sum>u\<in>UNIV. unat (yesStakes s m u)) = unat (yesPool (markets s m))) \<and>
     (\<forall>m. (\<Sum>u\<in>UNIV. unat (noStakes s m u)) = unat (noPool (markets s m))) \<and>
     (\<forall>m u. claimed s m u \<longrightarrow>
        resolved (markets s m) \<and> winning_stake s m u \<noteq> 0 \<and> winning_pool (markets s m) \<noteq> 0)"

section \<open>Concrete histories\<close>

text \<open>
  The example of the specification.  Account 1 deploys the contract at address 99 with
  bet limits 1 and 1000 and creates market 1 with deadline 100; account 2 stakes 100 and
  account 3 stakes 600 on yes, account 4 stakes 300 on no (\<open>demo_open\<close>); at time 100
  the owner resolves the market to yes (\<open>demo_resolved\<close>).
\<close>

definition demo_token :: erc20 where
  "demo_token = \<lparr>balanceOf = (\<lambda>_. 0)(2 := 100, 3 := 600, 4 := 300),
     allowance = (\<lambda>_ _. 0)(2 := (\<lambda>_. 0)(99 := 100), 3 := (\<lambda>_. 0)(99 := 600),
                     4 := (\<lambda>_. 0)(99 := 300))\<rparr>"

definition demo_init :: state where
  "demo_init = constructor 1 99 demo_token 1 1000"

definition demo_created :: state where
  "demo_created = apply_step
     (Tx \<lparr>msg_sender = 1, block_timestamp = 10\<rparr> (CreateMarket ''Will it rain?'' 100)) demo_init"

definition demo_bets :: "step list" where
  "demo_bets =
     [Tx \<lparr>msg_sender = 1, block_timestamp = 10\<rparr> (CreateMarket ''Will it rain?'' 100),
      Tx \<lparr>msg_sender = 2, block_timestamp = 20\<rparr> (BetYes 1 100),
      Tx \<lparr>msg_sender = 3, block_timestamp = 30\<rparr> (BetYes 1 600),
      Tx \<lparr>msg_sender = 4, block_timestamp = 40\<rparr> (BetNo 1 300)]"

definition demo_open :: state where
  "demo_open = run demo_bets demo_init"

definition demo_resolved :: state where
  "demo_resolved = apply_step (Tx \<lparr>msg_sender = 1, block_timestamp = 100\<rparr> (ResolveMarket 1 True)) demo_open"

text \<open>
  A token with many base units and no upper bet limit (\<open>maxBetSize = 0\<close>): account 2
  stakes \<open>2 ^ 128\<close> on yes, alone, and the market is resolved to yes.
\<close>

definition whale_token :: erc20 where
  "whale_token = \<lparr>balanceOf = (\<lambda>_. 0)(2 := 2 ^ 128),
     allowance = (\<lambda>_ _. 0)(2 := (\<lambda>_. 0)(99 := 2 ^ 128))\<rparr>"

definition whale_created :: state where
  "whale_created = apply_step
     (Tx \<lparr>msg_sender = 1, block_timestamp = 10\<rparr> (CreateMarket ''Will it rain?'' 100))
     (constructor 1 99 whale_token 1 0)"

definition whale_state :: state where
  "whale_state = run
     [Tx \<lparr>msg_sender = 1, block_timestamp = 10\<rparr> (CreateMarket ''Will it rain?'' 100),
      Tx \<lparr>msg_sender = 2, block_timestamp = 20\<rparr> (BetYes 1 (2 ^ 128)),
      Tx \<lparr>msg_sender = 1, block_timestamp = 100\<rparr> (ResolveMarket 1 True)]
     (constructor 1 99 whale_token 1 0)"

text \<open>
  A history in which the only bet is on the losing side: account 4 stakes 300 on no and
  the market is resolved to yes.
\<close>

definition lopsided_state :: state where
  "lopsided_state = run
     [Tx \<lparr>msg_sender = 1, block_timestamp = 10\<rparr> (CreateMarket ''Will it rain?'' 100),
      Tx \<lparr>msg_sender = 4, block_timestamp = 40\<rparr> (BetNo 1 300),
      Tx \<lparr>msg_sender = 1, block_timestamp = 100\<rparr> (ResolveMarket 1 True)]
     demo_init"

section \<open>Basic facts about checked arithmetic and sequencing\<close>

lemma and_then_Inl [simp]: "and_then (Inl x) f = Inl x"
  by (simp add: and_then_def)

lemma and_then_Inr [simp]: "and_then (Inr v) f = f v"
  by (simp add: and_then_def)

lemma and_then_eq_Inr: "and_then r f = Inr y \<longleftrightarrow> (\<exists>v. r = Inr v \<and> f v = Inr y)"
  by (cases r) simp_all

lemma and_then_eq_Inl: "and_then r f = Inl x \<longleftrightarrow> r = Inl x \<or> (\<exists>v. r = Inr v \<and> f v = Inl x)"
  by (cases r) simp_all

lemma checked_add_eq_Inr:
  "checked_add a b = Inr c \<longleftrightarrow> unat a + unat b < 2 ^ 256 \<and> c = a + b"
  by (auto simp: checked_add_def)

lemma checked_add_unat:
  "checked_add a b = Inr c \<Longrightarrow> unat c = unat a + unat b"
  using unat_add_lem [of a b] by (auto simp: checked_add_def split: if_splits)

lemma checked_mul_eq_Inr:
  "checked_mul a b = Inr c \<longleftrightarrow> unat a * unat b < 2 ^ 256 \<and> c = a * b"
  by (auto simp: checked_mul_def)

lemma checked_mul_unat:
  "checked_mul a b = Inr c \<Longrightarrow> unat c = unat a * unat b"
  using unat_mult_lem [of a b] by (auto simp: checked_mul_def split: if_splits)

lemma checked_div_eq_Inr:
  "checked_div a b = Inr c \<longleftrightarrow> b \<noteq> 0 \<and> c = a div b"
  by (auto simp: checked_div_def)

lemma checked_sub_eq_Inr:
  "checked_sub a b = Inr c \<longleftrightarrow> b \<le> a \<and> c = a - b"
  by (auto simp: checked_sub_def)

lemma checked_sub_unat:
  "checked_sub a b = Inr c \<Longrightarrow> unat c = unat a - unat b"
  by (auto simp: checked_sub_def unat_sub split: if_splits)

subsection \<open>Sums of quotients and of stakes\<close>

lemma div_add_div_le: "(a::nat) div c + b div c \<le> (a + b) div c"
proof (cases "c = 0")
  case True
  then show ?thesis by simp
next
  case False
  have "(a div c + b div c) * c \<le> a + b"
    by (simp add: add_mult_distrib add_mono div_times_less_eq_dividend)
  then show ?thesis using False by (simp add: less_eq_div_iff_mult_less_eq)
qed

lemma sum_div_le:
  fixes f :: "'a \<Rightarrow> nat"
  shows "finite A \<Longrightarrow> (\<Sum>i\<in>A. f i div c) \<le> (\<Sum>i\<in>A. f i) div c"
proof (induction A rule: finite_induct)
  case empty
  then show ?case by simp
next
  case (insert x F)
  then have "(\<Sum>i\<in>insert x F. f i div c) \<le> f x div c + (\<Sum>i\<in>F. f i) div c"
    by simp
  also have "\<dots> \<le> (f x + (\<Sum>i\<in>F. f i)) div c"
    by (rule div_add_div_le)
  finally show ?case using insert by simp
qed

lemma sum_unat_upd:
  fixes f :: "address \<Rightarrow> uint256"
  assumes "unat (f x) + unat a < 2 ^ 256"
  shows "(\<Sum>u\<in>UNIV. unat ((f(x := f x + a)) u)) = (\<Sum>u\<in>UNIV. unat (f u)) + unat a"
proof -
  have ua: "unat (f x + a) = unat (f x) + unat a"
    using assms unat_add_lem [of "f x" a] by simp
  have "(\<Sum>u\<in>UNIV. unat ((f(x := f x + a)) u))
      = unat (f x + a) + (\<Sum>u\<in>UNIV - {x}. unat ((f(x := f x + a)) u))"
    by (subst sum.remove [of UNIV x]) simp_all
  also have "(\<Sum>u\<in>UNIV - {x}. unat ((f(x := f x + a)) u)) = (\<Sum>u\<in>UNIV - {x}. unat (f u))"
    by (rule sum.cong) simp_all
  also have "(\<Sum>u\<in>UNIV. unat (f u)) = unat (f x) + (\<Sum>u\<in>UNIV - {x}. unat (f u))"
    by (subst sum.remove [of UNIV x]) simp_all
  ultimately show ?thesis using ua by simp
qed

section \<open>What a call that returns has done\<close>

subsection \<open>Bets\<close>

lemma placeBet_checks:
  assumes "placeBet m a y e s = Inr s'"
  shows "deadline (markets s m) \<noteq> 0"
    and "\<not> resolved (markets s m)"
    and "block_timestamp e < ucast (deadline (markets s m))"
    and "minBetSize s \<le> a"
    and "maxBetSize s = 0 \<or> a \<le> maxBetSize s"
  using assms
  by (simp_all add: placeBet_def Let_def not_less not_le word_gt_0 split: if_splits)

lemma placeBet_yes:
  assumes "placeBet m a True e s = Inr s'"
  shows "\<exists>t. safeTransferFrom (token s) (this s) (msg_sender e) (this s) a = Inr t \<and>
             unat (yesPool (markets s m)) + unat a < 2 ^ 256 \<and>
             unat (yesStakes s m (msg_sender e)) + unat a < 2 ^ 256 \<and>
             s' = s\<lparr>token := t,
                    markets := (markets s)(m := (markets s m)\<lparr>yesPool := yesPool (markets s m) + a\<rparr>),
                    yesStakes := (yesStakes s)(m := (yesStakes s m)(msg_sender e := yesStakes s m (msg_sender e) + a))\<rparr>"
  using assms
  by (simp add: placeBet_def Let_def and_then_eq_Inr checked_add_eq_Inr split: if_splits) blast

lemma placeBet_no:
  assumes "placeBet m a False e s = Inr s'"
  shows "\<exists>t. safeTransferFrom (token s) (this s) (msg_sender e) (this s) a = Inr t \<and>
             unat (noPool (markets s m)) + unat a < 2 ^ 256 \<and>
             unat (noStakes s m (msg_sender e)) + unat a < 2 ^ 256 \<and>
             s' = s\<lparr>token := t,
                    markets := (markets s)(m := (markets s m)\<lparr>noPool := noPool (markets s m) + a\<rparr>),
                    noStakes := (noStakes s)(m := (noStakes s m)(msg_sender e := noStakes s m (msg_sender e) + a))\<rparr>"
  using assms
  by (simp add: placeBet_def Let_def and_then_eq_Inr checked_add_eq_Inr split: if_splits) blast

lemma placeBet_effect:
  assumes "placeBet m a y e s = Inr s'"
  shows "y \<Longrightarrow> unat (yesPool (markets s' m)) = unat (yesPool (markets s m)) + unat a \<and>
           unat (yesStakes s' m (msg_sender e)) = unat (yesStakes s m (msg_sender e)) + unat a \<and>
           noPool (markets s' m) = noPool (markets s m) \<and> noStakes s' = noStakes s"
    and "\<not> y \<Longrightarrow> unat (noPool (markets s' m)) = unat (noPool (markets s m)) + unat a \<and>
           unat (noStakes s' m (msg_sender e)) = unat (noStakes s m (msg_sender e)) + unat a \<and>
           yesPool (markets s' m) = yesPool (markets s m) \<and> yesStakes s' = yesStakes s"
proof -
  show "unat (yesPool (markets s' m)) = unat (yesPool (markets s m)) + unat a \<and>
           unat (yesStakes s' m (msg_sender e)) = unat (yesStakes s m (msg_sender e)) + unat a \<and>
           noPool (markets s' m) = noPool (markets s m) \<and> noStakes s' = noStakes s" if y
  proof -
    from assms that have "placeBet m a True e s = Inr s'" by simp
    from placeBet_yes [OF this] obtain t where
      b: "unat (yesPool (markets s m)) + unat a < 2 ^ 256"
        "unat (yesStakes s m (msg_sender e)) + unat a < 2 ^ 256"
      and s': "s' = s\<lparr>token := t,
                    markets := (markets s)(m := (markets s m)\<lparr>yesPool := yesPool (markets s m) + a\<rparr>),
                    yesStakes := (yesStakes s)(m := (yesStakes s m)(msg_sender e := yesStakes s m (msg_sender e) + a))\<rparr>"
      by blast
    show ?thesis
      using b unat_add_lem [of "yesPool (markets s m)" a]
        unat_add_lem [of "yesStakes s m (msg_sender e)" a]
      by (simp add: s')
  qed
  show "unat (noPool (markets s' m)) = unat (noPool (markets s m)) + unat a \<and>
           unat (noStakes s' m (msg_sender e)) = unat (noStakes s m (msg_sender e)) + unat a \<and>
           yesPool (markets s' m) = yesPool (markets s m) \<and> yesStakes s' = yesStakes s" if "\<not> y"
  proof -
    from assms that have "placeBet m a False e s = Inr s'" by simp
    from placeBet_no [OF this] obtain t where
      b: "unat (noPool (markets s m)) + unat a < 2 ^ 256"
        "unat (noStakes s m (msg_sender e)) + unat a < 2 ^ 256"
      and s': "s' = s\<lparr>token := t,
                    markets := (markets s)(m := (markets s m)\<lparr>noPool := noPool (markets s m) + a\<rparr>),
                    noStakes := (noStakes s)(m := (noStakes s m)(msg_sender e := noStakes s m (msg_sender e) + a))\<rparr>"
      by blast
    show ?thesis
      using b unat_add_lem [of "noPool (markets s m)" a]
        unat_add_lem [of "noStakes s m (msg_sender e)" a]
      by (simp add: s')
  qed
qed

lemma placeBet_ended:
  "deadline (markets s m) \<noteq> 0 \<Longrightarrow> \<not> resolved (markets s m) \<Longrightarrow>
   ucast (deadline (markets s m)) \<le> block_timestamp e \<Longrightarrow>
   placeBet m a y e s = Inl MarketEnded"
  by (simp add: placeBet_def Let_def)

lemma placeBet_succeeds:
  assumes "deadline (markets s m) \<noteq> 0" and "\<not> resolved (markets s m)"
    and "block_timestamp e < ucast (deadline (markets s m))"
    and "minBetSize s \<le> a" and "maxBetSize s = 0 \<or> a \<le> maxBetSize s"
    and "safeTransferFrom (token s) (this s) (msg_sender e) (this s) a = Inr t"
    and "unat (if y then yesPool (markets s m) else noPool (markets s m)) + unat a < 2 ^ 256"
    and "unat (if y then yesStakes s m (msg_sender e) else noStakes s m (msg_sender e)) + unat a
           < 2 ^ 256"
  shows "\<exists>s'. placeBet m a y e s = Inr s'"
  using assms
  by (cases y) (auto simp: placeBet_def Let_def checked_add_def not_le not_less)

subsection \<open>The reentrancy lock\<close>

text \<open>
  The bodies behind the lock neither read nor write the lock, so between calls, when
  the lock is free, an entry point behaves as its body.
\<close>

lemma entered_False_id: "\<not> entered s \<Longrightarrow> s\<lparr>entered := False\<rparr> = s"
  by (cases s) simp

lemma placeBet_entered:
  "placeBet m a y e (s\<lparr>entered := b\<rparr>) =
     and_then (placeBet m a y e s) (\<lambda>s'. Inr (s'\<lparr>entered := b\<rparr>))"
  by (simp add: placeBet_def Let_def and_then_def split: sum.splits)

lemma placeBet_keeps_entered:
  "placeBet m a y e s = Inr s' \<Longrightarrow> entered s' = entered s"
  by (cases y) (auto dest: placeBet_yes placeBet_no)

lemma nonReentrant_eq:
  assumes "\<And>b. body (s\<lparr>entered := b\<rparr>) = and_then (body s) (\<lambda>s'. Inr (s'\<lparr>entered := b\<rparr>))"
    and "\<And>s'. body s = Inr s' \<Longrightarrow> entered s' = entered s"
  shows "nonReentrant body s = (if entered s then Inl ReentrancyGuardReentrantCall else body s)"
proof (cases "body s")
  case (Inl x)
  then show ?thesis by (simp add: nonReentrant_def assms(1))
next
  case (Inr s')
  then have "\<not> entered s \<Longrightarrow> s'\<lparr>entered := False\<rparr> = s'"
    using assms(2) [of s'] by (simp add: entered_False_id)
  with Inr show ?thesis by (simp add: nonReentrant_def assms(1))
qed

lemma betYes_eq:
  "betYes m a e s = (if entered s then Inl ReentrancyGuardReentrantCall else placeBet m a True e s)"
  unfolding betYes_def by (rule nonReentrant_eq) (simp_all add: placeBet_entered placeBet_keeps_entered)

lemma betNo_eq:
  "betNo m a e s = (if entered s then Inl ReentrancyGuardReentrantCall else placeBet m a False e s)"
  unfolding betNo_def by (rule nonReentrant_eq) (simp_all add: placeBet_entered placeBet_keeps_entered)

subsection \<open>Claims\<close>

lemma claim_body_Inr:
  assumes "claim_body m e s = Inr s'"
  shows "\<exists>p fee t. deadline (markets s m) \<noteq> 0 \<and> resolved (markets s m) \<and>
           \<not> claimed s m (msg_sender e) \<and>
           calculatePayout s m (msg_sender e) = Inr p \<and> p \<noteq> 0 \<and>
           unat p * unat (platformFeeBps s) < 2 ^ 256 \<and>
           fee = (p * platformFeeBps s) div BPS_DENOMINATOR \<and> fee \<le> p \<and>
           unat (accumulatedFees s) + unat fee < 2 ^ 256 \<and>
           safeTransfer (token s) (this s) (msg_sender e) (p - fee) = Inr t \<and>
           s' = s\<lparr>claimed := (claimed s)(m := (claimed s m)(msg_sender e := True)),
                  accumulatedFees := accumulatedFees s + fee, token := t\<rparr>"
  using assms
  by (simp add: claim_body_def Let_def and_then_eq_Inr checked_add_eq_Inr checked_mul_eq_Inr
      checked_div_eq_Inr checked_sub_eq_Inr split: if_splits) blast

lemma claim_body_entered:
  "claim_body m e (s\<lparr>entered := b\<rparr>) =
     and_then (claim_body m e s) (\<lambda>s'. Inr (s'\<lparr>entered := b\<rparr>))"
  by (simp add: claim_body_def calculatePayout_def Let_def and_then_def split: sum.splits)

lemma claim_body_keeps_entered:
  "claim_body m e s = Inr s' \<Longrightarrow> entered s' = entered s"
  by (auto dest: claim_body_Inr)

lemma claim_eq:
  "claim m e s = (if entered s then Inl ReentrancyGuardReentrantCall else claim_body m e s)"
  unfolding claim_def by (rule nonReentrant_eq) (simp_all add: claim_body_entered claim_body_keeps_entered)

lemma claim_body_not_found:
  "deadline (markets s m) = 0 \<Longrightarrow> claim_body m e s = Inl MarketDoesNotExist"
  by (simp add: claim_body_def)

lemma claim_body_unresolved:
  "deadline (markets s m) \<noteq> 0 \<Longrightarrow> \<not> resolved (markets s m) \<Longrightarrow>
   claim_body m e s = Inl MarketNotResolved"
  by (simp add: claim_body_def)

lemma claim_body_claimed:
  "deadline (markets s m) \<noteq> 0 \<Longrightarrow> resolved (markets s m) \<Longrightarrow> claimed s m (msg_sender e) \<Longrightarrow>
   claim_body m e s = Inl AlreadyClaimed"
  by (simp add: claim_body_def)

lemma claim_body_no_winnings:
  "deadline (markets s m) \<noteq> 0 \<Longrightarrow> resolved (markets s m) \<Longrightarrow> \<not> claimed s m (msg_sender e) \<Longrightarrow>
   calculatePayout s m (msg_sender e) = Inr 0 \<Longrightarrow> claim_body m e s = Inl NoWinnings"
  by (simp add: claim_body_def)

lemma claim_success:
  assumes "fst (execute (Claim m) e s) = Inr r"
  shows "\<not> entered s" and "claim_body m e s = Inr (snd (execute (Claim m) e s))"
  using assms
  by (auto simp: execute_def no_return_def and_then_def claim_eq split: sum.splits if_splits)

lemma claim_fails:
  assumes "\<not> entered s" and "claim_body m e s = Inl x"
  shows "execute (Claim m) e s = (Inl x, s)"
  using assms by (simp add: execute_def no_return_def claim_eq)

lemma erc20_move_balances:
  assumes "src \<noteq> dst"
  shows "balanceOf (erc20_move t src dst v) dst = balanceOf t dst + v"
    and "balanceOf (erc20_move t src dst v) src = balanceOf t src - v"
  using assms by (simp_all add: erc20_move_def Let_def)

lemma claim_effect:
  assumes "execute (Claim m) e s = (Inr r, s')"
  shows "\<exists>p fee. calculatePayout s m (msg_sender e) = Inr p \<and> 0 < unat p \<and>
           unat fee = unat p * unat (platformFeeBps s) div 10000 \<and> unat fee \<le> unat p \<and>
           unat (accumulatedFees s') = unat (accumulatedFees s) + unat fee \<and>
           accumulatedFees s' = accumulatedFees s + fee \<and>
           unat p - unat fee \<le> balanceOf (token s) (this s) \<and>
           token s' = erc20_move (token s) (this s) (msg_sender e) (unat p - unat fee)"
proof -
  from assms have f: "fst (execute (Claim m) e s) = Inr r" and s': "snd (execute (Claim m) e s) = s'"
    by simp_all
  from claim_body_Inr [OF claim_success(2) [OF f]] s' obtain p fee t where
    p: "calculatePayout s m (msg_sender e) = Inr p" "p \<noteq> 0"
    and mul: "unat p * unat (platformFeeBps s) < 2 ^ 256"
    and fee: "fee = (p * platformFeeBps s) div BPS_DENOMINATOR" "fee \<le> p"
    and acc: "unat (accumulatedFees s) + unat fee < 2 ^ 256"
    and tr: "safeTransfer (token s) (this s) (msg_sender e) (p - fee) = Inr t"
    and st: "s' = s\<lparr>claimed := (claimed s)(m := (claimed s m)(msg_sender e := True)),
                  accumulatedFees := accumulatedFees s + fee, token := t\<rparr>"
    by auto
  have "unat (p * platformFeeBps s) = unat p * unat (platformFeeBps s)"
    using mul unat_mult_lem [of p "platformFeeBps s"] by simp
  then have 1: "unat fee = unat p * unat (platformFeeBps s) div 10000"
    by (simp add: fee(1) unat_div BPS_DENOMINATOR_def)
  have 2: "unat (accumulatedFees s + fee) = unat (accumulatedFees s) + unat fee"
    using acc unat_add_lem [of "accumulatedFees s" fee] by simp
  have 3: "unat (p - fee) = unat p - unat fee" using fee(2) by (rule unat_sub)
  have 4: "unat fee \<le> unat p" using fee(2) by (simp add: word_le_nat_alt)
  have 5: "0 < unat p" using p(2) by (simp add: unat_gt_0)
  from tr have 6: "unat (p - fee) \<le> balanceOf (token s) (this s)"
    and 7: "t = erc20_move (token s) (this s) (msg_sender e) (unat (p - fee))"
    by (auto simp: safeTransfer_def split: if_splits)
  show ?thesis using p(1) 1 2 3 4 5 6 7 by (auto simp: st)
qed

subsection \<open>Market creation, resolution and administration\<close>

lemma createMarket_Inr:
  "createMarket q d e s = Inr (n, s') \<longleftrightarrow>
     \<not> ucast d \<le> block_timestamp e \<and> unat (marketCount s) + 1 < 2 ^ 256 \<and>
     n = marketCount s + 1 \<and>
     s' = s\<lparr>marketCount := marketCount s + 1,
            markets := (markets s)(marketCount s + 1 :=
              \<lparr>question = q, deadline = d, resolved = False, outcomeYes = False,
               yesPool = 0, noPool = 0\<rparr>)\<rparr>"
  by (auto simp: createMarket_def and_then_eq_Inr checked_add_eq_Inr)

lemma resolveMarket_Inr:
  "resolveMarket m b e s = Inr s' \<longleftrightarrow>
     msg_sender e = owner s \<and> deadline (markets s m) \<noteq> 0 \<and> \<not> resolved (markets s m) \<and>
     \<not> block_timestamp e < ucast (deadline (markets s m)) \<and>
     s' = s\<lparr>markets := (markets s)(m := (markets s m)\<lparr>resolved := True, outcomeYes := b\<rparr>)\<rparr>"
  by (auto simp: resolveMarket_def onlyOwner_def Let_def)

lemma resolveMarket_unauthorized:
  "msg_sender e \<noteq> owner s \<Longrightarrow>
   resolveMarket m b e s = Inl (OwnableUnauthorizedAccount (msg_sender e))"
  by (simp add: resolveMarket_def onlyOwner_def)

lemma resolveMarket_owner:
  assumes "msg_sender e = owner s"
  shows "deadline (markets s m) = 0 \<Longrightarrow> resolveMarket m b e s = Inl MarketDoesNotExist"
    and "deadline (markets s m) \<noteq> 0 \<Longrightarrow> resolved (markets s m) \<Longrightarrow>
         resolveMarket m b e s = Inl MarketAlreadyResolved"
    and "deadline (markets s m) \<noteq> 0 \<Longrightarrow> \<not> resolved (markets s m) \<Longrightarrow>
         block_timestamp e < ucast (deadline (markets s m)) \<Longrightarrow>
         resolveMarket m b e s = Inl MarketNotEnded"
  using assms by (simp_all add: resolveMarket_def onlyOwner_def Let_def)

lemma withdrawFees_Inr:
  "withdrawFees dst e s = Inr s' \<longleftrightarrow>
     msg_sender e = owner s \<and> accumulatedFees s \<noteq> 0 \<and>
     (\<exists>t. safeTransfer (token s) (this s) dst (accumulatedFees s) = Inr t \<and>
          s' = s\<lparr>accumulatedFees := 0, token := t\<rparr>)"
  by (auto simp: withdrawFees_def onlyOwner_def Let_def and_then_eq_Inr)

lemma setFee_Inr:
  "setFee n e s = Inr s' \<longleftrightarrow>
     msg_sender e = owner s \<and> n \<le> MAX_FEE_BPS \<and> s' = s\<lparr>platformFeeBps := n\<rparr>"
  by (auto simp: setFee_def onlyOwner_def)

lemma setBetLimits_Inr:
  "setBetLimits lo hi e s = Inr s' \<longleftrightarrow>
     msg_sender e = owner s \<and> s' = s\<lparr>minBetSize := lo, maxBetSize := hi\<rparr>"
  by (auto simp: setBetLimits_def onlyOwner_def)

subsection \<open>Calls and steps\<close>

lemma no_return_Inr: "no_return r = Inr (v, s') \<longleftrightarrow> v = RNone \<and> r = Inr s'"
  by (cases r) (auto simp: no_return_def)

lemma no_return_Inl: "no_return r = Inl x \<longleftrightarrow> r = Inl x"
  by (cases r) (auto simp: no_return_def)

lemma view_uint_Inr: "view_uint s r = Inr (v, s') \<longleftrightarrow> s' = s \<and> (\<exists>u. r = Inr u \<and> v = RUint u)"
  by (cases r) (auto simp: view_uint_def)

lemma execute_Inl: "dispatch c e s = Inl x \<Longrightarrow> execute c e s = (Inl x, s)"
  by (simp add: execute_def)

lemma execute_Inr: "dispatch c e s = Inr (r, s') \<Longrightarrow> execute c e s = (Inr r, s')"
  by (simp add: execute_def)

lemma execute_eq_Inr: "execute c e s = (Inr r, s') \<longleftrightarrow> dispatch c e s = Inr (r, s')"
  by (auto simp: execute_def split: sum.splits)

lemma execute_eq_Inl: "execute c e s = (Inl x, s') \<longleftrightarrow> dispatch c e s = Inl x \<and> s' = s"
  by (auto simp: execute_def split: sum.splits)

lemma execute_resolve:
  "execute (ResolveMarket m b) e s =
     (case resolveMarket m b e s of Inl x \<Rightarrow> (Inl x, s) | Inr s' \<Rightarrow> (Inr RNone, s'))"
  by (simp add: execute_def no_return_def and_then_def split: sum.splits)

lemma apply_step_Tx_cases:
  obtains (reverted) x where "dispatch c e s = Inl x" "apply_step (Tx e c) s = s"
  | (returned) r where "dispatch c e s = Inr (r, apply_step (Tx e c) s)"
  by (cases "dispatch c e s") (auto simp: execute_def)

text \<open>
  Every step of a history either leaves the state as it is (a call that reverts, a
  view) or is one of nine updates.  All facts about histories below are proved by this
  case analysis.
\<close>

lemma apply_step_cases
  [case_names same token_activity create bet_yes bet_no resolve claim withdraw set_fee set_limits]:
  obtains
    (same) "apply_step x s = s"
  | (token_activity) t where "x = TokenActivity t" "apply_step x s = s\<lparr>token := t\<rparr>"
  | (create) e q d where "x = Tx e (CreateMarket q d)"
      "\<not> ucast d \<le> block_timestamp e" "unat (marketCount s) + 1 < 2 ^ 256"
      "apply_step x s = s\<lparr>marketCount := marketCount s + 1,
         markets := (markets s)(marketCount s + 1 :=
           \<lparr>question = q, deadline = d, resolved = False, outcomeYes = False,
            yesPool = 0, noPool = 0\<rparr>)\<rparr>"
  | (bet_yes) e m a t where "x = Tx e (BetYes m a)" "\<not> entered s"
      "placeBet m a True e s = Inr (apply_step x s)"
      "deadline (markets s m) \<noteq> 0" "\<not> resolved (markets s m)"
      "unat (yesPool (markets s m)) + unat a < 2 ^ 256"
      "unat (yesStakes s m (msg_sender e)) + unat a < 2 ^ 256"
      "apply_step x s = s\<lparr>token := t,
         markets := (markets s)(m := (markets s m)\<lparr>yesPool := yesPool (markets s m) + a\<rparr>),
         yesStakes := (yesStakes s)(m := (yesStakes s m)
           (msg_sender e := yesStakes s m (msg_sender e) + a))\<rparr>"
  | (bet_no) e m a t where "x = Tx e (BetNo m a)" "\<not> entered s"
      "placeBet m a False e s = Inr (apply_step x s)"
      "deadline (markets s m) \<noteq> 0" "\<not> resolved (markets s m)"
      "unat (noPool (markets s m)) + unat a < 2 ^ 256"
      "unat (noStakes s m (msg_sender e)) + unat a < 2 ^ 256"
      "apply_step x s = s\<lparr>token := t,
         markets := (markets s)(m := (markets s m)\<lparr>noPool := noPool (markets s m) + a\<rparr>),
         noStakes := (noStakes s)(m := (noStakes s m)
           (msg_sender e := noStakes s m (msg_sender e) + a))\<rparr>"
  | (resolve) e m b where "x = Tx e (ResolveMarket m b)" "msg_sender e = owner s"
      "deadline (markets s m) \<noteq> 0" "\<not> resolved (markets s m)"
      "apply_step x s =
         s\<lparr>markets := (markets s)(m := (markets s m)\<lparr>resolved := True, outcomeYes := b\<rparr>)\<rparr>"
  | (claim) e m p fee t where "x = Tx e (Claim m)" "\<not> entered s"
      "deadline (markets s m) \<noteq> 0" "resolved (markets s m)"
      "\<not> claimed s m (msg_sender e)"
      "calculatePayout s m (msg_sender e) = Inr p" "p \<noteq> 0"
      "apply_step x s = s\<lparr>claimed := (claimed s)(m := (claimed s m)(msg_sender e := True)),
         accumulatedFees := accumulatedFees s + fee, token := t\<rparr>"
  | (withdraw) t where "apply_step x s = s\<lparr>accumulatedFees := 0, token := t\<rparr>"
  | (set_fee) n where "apply_step x s = s\<lparr>platformFeeBps := n\<rparr>"
  | (set_limits) lo hi where "apply_step x s = s\<lparr>minBetSize := lo, maxBetSize := hi\<rparr>"
proof (cases x)
  case (TokenActivity t)
  then show ?thesis using token_activity by simp
next
  case (Tx e c)
  show ?thesis
  proof (rule apply_step_Tx_cases [of c e s], goal_cases)
    case (1 err)
    then show ?thesis using same Tx by simp
  next
    case returned: (2 r)
    let ?s' = "apply_step (Tx e c) s"
    show ?thesis
    proof (cases c)
      case (CreateMarket q d)
      with returned have "\<exists>n. createMarket q d e s = Inr (n, ?s')"
        by (auto simp: and_then_eq_Inr)
      then show ?thesis using create Tx CreateMarket
        by (auto simp: createMarket_Inr)
    next
      case (BetYes m a)
      with returned have ne: "\<not> entered s" and pb: "placeBet m a True e s = Inr ?s'"
        by (auto simp: no_return_Inr betYes_eq split: if_splits)
      from placeBet_yes [OF pb] obtain t where
        "unat (yesPool (markets s m)) + unat a < 2 ^ 256"
        "unat (yesStakes s m (msg_sender e)) + unat a < 2 ^ 256"
        "?s' = s\<lparr>token := t,
           markets := (markets s)(m := (markets s m)\<lparr>yesPool := yesPool (markets s m) + a\<rparr>),
           yesStakes := (yesStakes s)(m := (yesStakes s m)
             (msg_sender e := yesStakes s m (msg_sender e) + a))\<rparr>"
        by blast
      then show ?thesis
        using bet_yes Tx BetYes ne pb placeBet_checks(1,2) [OF pb] by blast
    next
      case (BetNo m a)
      with returned have ne: "\<not> entered s" and pb: "placeBet m a False e s = Inr ?s'"
        by (auto simp: no_return_Inr betNo_eq split: if_splits)
      from placeBet_no [OF pb] obtain t where
        "unat (noPool (markets s m)) + unat a < 2 ^ 256"
        "unat (noStakes s m (msg_sender e)) + unat a < 2 ^ 256"
        "?s' = s\<lparr>token := t,
           markets := (markets s)(m := (markets s m)\<lparr>noPool := noPool (markets s m) + a\<rparr>),
           noStakes := (noStakes s)(m := (noStakes s m)
             (msg_sender e := noStakes s m (msg_sender e) + a))\<rparr>"
        by blast
      then show ?thesis
        using bet_no Tx BetNo ne pb placeBet_checks(1,2) [OF pb] by blast
    next
      case (ResolveMarket m b)
      with returned have "resolveMarket m b e s = Inr ?s'"
        by (simp add: no_return_Inr)
      then show ?thesis using resolve Tx ResolveMarket
        by (auto simp: resolveMarket_Inr)
    next
      case (Claim m)
      with returned have ne: "\<not> entered s" and cb: "claim_body m e s = Inr ?s'"
        by (auto simp: no_return_Inr claim_eq split: if_splits)
      from claim_body_Inr [OF cb] obtain p fee t where
        "deadline (markets s m) \<noteq> 0" "resolved (markets s m)"
        "\<not> claimed s m (msg_sender e)"
        "calculatePayout s m (msg_sender e) = Inr p" "p \<noteq> 0"
        "?s' = s\<lparr>claimed := (claimed s)(m := (claimed s m)(msg_sender e := True)),
           accumulatedFees := accumulatedFees s + fee, token := t\<rparr>"
        by blast
      then show ?thesis using claim Tx Claim ne by blast
    next
      case (WithdrawFees dst)
      with returned have "withdrawFees dst e s = Inr ?s'"
        by (simp add: no_return_Inr)
      then show ?thesis using withdraw Tx by (auto simp: withdrawFees_Inr)
    next
      case (SetFee n)
      with returned have "setFee n e s = Inr ?s'"
        by (simp add: no_return_Inr)
      then show ?thesis using set_fee Tx by (auto simp: setFee_Inr)
    next
      case (SetBetLimits lo hi)
      with returned have "setBetLimits lo hi e s = Inr ?s'"
        by (simp add: no_return_Inr)
      then show ?thesis using set_limits Tx by (auto simp: setBetLimits_Inr)
    next
      case (GetMarket m)
      with returned show ?thesis using same Tx by (auto split: prod.splits)
    next
      case (GetOdds m)
      with returned show ?thesis using same Tx by (auto simp: and_then_eq_Inr)
    next
      case (GetUserStakes m u)
      with returned show ?thesis using same Tx by (auto split: prod.splits)
    next
      case (CalculatePayout m u)
      with returned show ?thesis using same Tx by (auto simp: view_uint_Inr)
    next
      case (CalculatePayoutAfterFee m u)
      with returned show ?thesis using same Tx by (auto simp: view_uint_Inr)
    qed
  qed
qed

lemma run_append: "run (xs @ ys) s = run ys (run xs s)"
  by (induction xs arbitrary: s) simp_all

section \<open>What calculatePayout computes\<close>

lemma calculatePayout_unresolved:
  "\<not> resolved (markets s m) \<Longrightarrow> calculatePayout s m u = Inr 0"
  by (simp add: calculatePayout_def)

lemma total_pool_word:
  assumes "total_pool mk < 2 ^ 256"
  shows "checked_add (yesPool mk) (noPool mk) = Inr (yesPool mk + noPool mk)"
    and "unat (yesPool mk + noPool mk) = total_pool mk"
  using assms unat_add_lem [of "yesPool mk" "noPool mk"]
  by (simp_all add: checked_add_def total_pool_def)

lemma calculatePayout_zero:
  assumes "resolved (markets s m)" and "total_pool (markets s m) < 2 ^ 256"
    and "winning_stake s m u = 0 \<or> winning_pool (markets s m) = 0"
  shows "calculatePayout s m u = Inr 0"
  using assms(1,3) total_pool_word(1) [OF assms(2)]
  by (auto simp: calculatePayout_def Let_def winning_stake_def winning_pool_def split: if_splits)

lemma calculatePayout_floor:
  assumes "resolved (markets s m)"
    and "winning_stake s m u \<noteq> 0" and "winning_pool (markets s m) \<noteq> 0"
    and "unat (winning_stake s m u) * total_pool (markets s m) < 2 ^ 256"
  shows "\<exists>p. calculatePayout s m u = Inr p \<and>
           unat p = unat (winning_stake s m u) * total_pool (markets s m)
                      div unat (winning_pool (markets s m))"
proof -
  let ?mk = "markets s m"
  let ?st = "winning_stake s m u"
  let ?T = "yesPool ?mk + noPool ?mk"
  have st: "0 < unat ?st" using assms(2) by (simp add: unat_gt_0)
  have "total_pool ?mk \<le> unat ?st * total_pool ?mk" using st by simp
  then have tp: "total_pool ?mk < 2 ^ 256" using assms(4) by linarith
  note T = total_pool_word [OF tp]
  have "unat (winning_pool ?mk) \<le> total_pool ?mk"
    by (simp add: winning_pool_def total_pool_def)
  moreover have "0 < unat (winning_pool ?mk)" using assms(3) by (simp add: unat_gt_0)
  ultimately have "0 < unat ?T" using T(2) by linarith
  then have T0: "?T \<noteq> 0" by (simp add: unat_gt_0)
  have mul: "checked_mul ?st ?T = Inr (?st * ?T)" and umul: "unat (?st * ?T) = unat ?st * total_pool ?mk"
    using assms(4) T(2) unat_mult_lem [of ?st ?T] by (simp_all add: checked_mul_def)
  have "calculatePayout s m u = Inr ((?st * ?T) div winning_pool ?mk)"
    using assms(1,2,3) T(1) T0 mul
    by (auto simp: calculatePayout_def Let_def winning_stake_def winning_pool_def checked_div_def
        split: if_splits)
  moreover have "unat ((?st * ?T) div winning_pool ?mk)
      = unat ?st * total_pool ?mk div unat (winning_pool ?mk)"
    by (simp add: unat_div umul)
  ultimately show ?thesis by blast
qed

lemma calculatePayout_overflow:
  assumes "resolved (markets s m)"
    and "2 ^ 256 \<le> total_pool (markets s m) \<or>
         (winning_stake s m u \<noteq> 0 \<and> winning_pool (markets s m) \<noteq> 0 \<and>
          2 ^ 256 \<le> unat (winning_stake s m u) * total_pool (markets s m))"
  shows "calculatePayout s m u = Inl (Panic 17)"
proof (cases "2 ^ 256 \<le> total_pool (markets s m)")
  case True
  then have "checked_add (yesPool (markets s m)) (noPool (markets s m)) = Inl (Panic 17)"
    by (simp add: checked_add_def total_pool_def)
  then show ?thesis using assms(1) by (simp add: calculatePayout_def Let_def)
next
  case False
  let ?mk = "markets s m"
  let ?st = "winning_stake s m u"
  let ?T = "yesPool ?mk + noPool ?mk"
  from False have tp: "total_pool ?mk < 2 ^ 256" by simp
  note T = total_pool_word [OF tp]
  from False assms(2) have st: "?st \<noteq> 0" and wp: "winning_pool ?mk \<noteq> 0"
    and ov: "2 ^ 256 \<le> unat ?st * total_pool ?mk" by auto
  have "unat (winning_pool ?mk) \<le> total_pool ?mk"
    by (simp add: winning_pool_def total_pool_def)
  moreover have "0 < unat (winning_pool ?mk)" using wp by (simp add: unat_gt_0)
  ultimately have "0 < unat ?T" using T(2) by linarith
  then have T0: "?T \<noteq> 0" by (simp add: unat_gt_0)
  have mul: "checked_mul ?st ?T = Inl (Panic 17)"
    using ov T(2) by (simp add: checked_mul_def)
  show ?thesis using assms(1) st wp T(1) T0 mul
    by (auto simp: calculatePayout_def Let_def winning_stake_def winning_pool_def split: if_splits)
qed

lemma calculatePayout_nonzero:
  assumes "calculatePayout s m u = Inr p" and "p \<noteq> 0"
  shows "resolved (markets s m)" and "winning_stake s m u \<noteq> 0"
    and "winning_pool (markets s m) \<noteq> 0"
proof -
  show r: "resolved (markets s m)"
    using assms calculatePayout_unresolved [of s m u] by auto
  have tp: "total_pool (markets s m) < 2 ^ 256"
    using calculatePayout_overflow [OF r, of u] assms(1) by (cases "total_pool (markets s m) < 2 ^ 256") auto
  show "winning_stake s m u \<noteq> 0" "winning_pool (markets s m) \<noteq> 0"
    using calculatePayout_zero [OF r tp, of u] assms by auto
qed

lemma payout_of_le:
  "payout_of s m u \<le> unat (winning_stake s m u) * total_pool (markets s m)
      div unat (winning_pool (markets s m))"
proof (cases "calculatePayout s m u")
  case (Inl x)
  then show ?thesis by (simp add: payout_of_def)
next
  case (Inr p)
  show ?thesis
  proof (cases "p = 0")
    case True
    with Inr show ?thesis by (simp add: payout_of_def)
  next
    case False
    note nz = calculatePayout_nonzero [OF Inr False]
    have "unat (winning_stake s m u) * total_pool (markets s m) < 2 ^ 256"
      using calculatePayout_overflow [OF nz(1), of u] nz(2,3) Inr
      by (cases "unat (winning_stake s m u) * total_pool (markets s m) < 2 ^ 256") auto
    from calculatePayout_floor [OF nz this] Inr show ?thesis
      by (auto simp: payout_of_def)
  qed
qed

lemma winning_pool_zero_payout:
  assumes "winning_pool (markets s m) = 0"
  shows "calculatePayout s m u = Inr 0"
proof (cases "resolved (markets s m)")
  case False
  then show ?thesis by (rule calculatePayout_unresolved)
next
  case True
  have "total_pool (markets s m) < 2 ^ 256"
  proof (cases "outcomeYes (markets s m)")
    case True
    with assms have "total_pool (markets s m) = unat (noPool (markets s m))"
      by (simp add: winning_pool_def total_pool_def)
    then show ?thesis using unsigned_less [of "noPool (markets s m)"] by simp
  next
    case False
    with assms have "total_pool (markets s m) = unat (yesPool (markets s m))"
      by (simp add: winning_pool_def total_pool_def)
    then show ?thesis using unsigned_less [of "yesPool (markets s m)"] by simp
  qed
  then show ?thesis using calculatePayout_zero [OF True] assms by blast
qed

section \<open>The invariant holds in every reachable state\<close>

lemma invariantD:
  assumes "invariant s"
  shows "\<not> entered s"
    and "marketCount s < m \<Longrightarrow> deadline (markets s m) = 0"
    and "deadline (markets s m) = 0 \<Longrightarrow> markets s m = empty_market"
    and "(\<Sum>u\<in>UNIV. unat (yesStakes s m u)) = unat (yesPool (markets s m))"
    and "(\<Sum>u\<in>UNIV. unat (noStakes s m u)) = unat (noPool (markets s m))"
    and "claimed s m u \<Longrightarrow> resolved (markets s m)"
    and "claimed s m u \<Longrightarrow> winning_stake s m u \<noteq> 0"
    and "claimed s m u \<Longrightarrow> winning_pool (markets s m) \<noteq> 0"
  using assms unfolding invariant_def by blast+

lemma invariantI:
  assumes "\<not> entered s"
    and "\<And>m. marketCount s < m \<Longrightarrow> deadline (markets s m) = 0"
    and "\<And>m. deadline (markets s m) = 0 \<Longrightarrow> markets s m = empty_market"
    and "\<And>m. (\<Sum>u\<in>UNIV. unat (yesStakes s m u)) = unat (yesPool (markets s m))"
    and "\<And>m. (\<Sum>u\<in>UNIV. unat (noStakes s m u)) = unat (noPool (markets s m))"
    and "\<And>m u. claimed s m u \<Longrightarrow>
           resolved (markets s m) \<and> winning_stake s m u \<noteq> 0 \<and> winning_pool (markets s m) \<noteq> 0"
  shows "invariant s"
  using assms unfolding invariant_def by blast

lemma invariant_exists:
  assumes "invariant s" and "deadline (markets s m) \<noteq> 0"
  shows "\<not> marketCount s < m"
  using invariantD(2) [OF assms(1)] assms(2) by blast

lemma invariant_resolved_exists:
  assumes "invariant s" and "resolved (markets s m)"
  shows "deadline (markets s m) \<noteq> 0"
  using invariantD(3) [OF assms(1), of m] assms(2) by (auto simp: empty_market_def)

lemma invariant_constructor: "invariant (constructor deployer self tok lo hi)"
  by (simp add: invariant_def constructor_def empty_market_def)

lemma count_less_succ:
  assumes "unat (c::uint256) + 1 < 2 ^ 256"
  shows "c < c + 1" and "\<And>m. c + 1 < m \<Longrightarrow> c < m"
proof -
  have "unat (c + 1) = unat c + 1"
    using assms unat_add_lem [of c 1] by simp
  then show "c < c + 1" by (simp add: word_less_nat_alt)
  then show "\<And>m. c + 1 < m \<Longrightarrow> c < m" by simp
qed

lemma invariant_frame:
  assumes "invariant s" and "entered s' = entered s" and "marketCount s' = marketCount s"
    and "markets s' = markets s" and "yesStakes s' = yesStakes s"
    and "noStakes s' = noStakes s" and "claimed s' = claimed s"
  shows "invariant s'"
proof -
  have "winning_stake s' = winning_stake s"
    by (simp add: winning_stake_def fun_eq_iff assms)
  then show ?thesis using assms unfolding invariant_def by simp
qed

lemma invariant_create:
  assumes inv: "invariant s" and d: "d \<noteq> 0" and c: "unat (marketCount s) + 1 < 2 ^ 256"
  shows "invariant (s\<lparr>marketCount := marketCount s + 1,
           markets := (markets s)(marketCount s + 1 :=
             \<lparr>question = q, deadline = d, resolved = False, outcomeYes = False,
              yesPool = 0, noPool = 0\<rparr>)\<rparr>)"
    (is "invariant ?s'")
proof (rule invariantI)
  let ?n = "marketCount s + 1"
  note lt = count_less_succ [OF c]
  have fresh: "markets s ?n = empty_market"
    using invariantD(2,3) [OF inv] lt(1) by blast
  show "\<not> entered ?s'" using invariantD(1) [OF inv] by simp
  show "deadline (markets ?s' m) = 0" if "marketCount ?s' < m" for m
    using that lt(2) [of m] invariantD(2) [OF inv, of m] by auto
  show "markets ?s' m = empty_market" if "deadline (markets ?s' m) = 0" for m
    using that d invariantD(3) [OF inv, of m] by (cases "m = ?n") simp_all
  show "(\<Sum>u\<in>UNIV. unat (yesStakes ?s' m u)) = unat (yesPool (markets ?s' m))" for m
    using invariantD(4) [OF inv, of m] fresh by (cases "m = ?n") (simp_all add: empty_market_def)
  show "(\<Sum>u\<in>UNIV. unat (noStakes ?s' m u)) = unat (noPool (markets ?s' m))" for m
    using invariantD(5) [OF inv, of m] fresh by (cases "m = ?n") (simp_all add: empty_market_def)
  show "resolved (markets ?s' m) \<and> winning_stake ?s' m u \<noteq> 0 \<and> winning_pool (markets ?s' m) \<noteq> 0"
    if "claimed ?s' m u" for m u
  proof -
    from that have cl: "claimed s m u" by simp
    note k = invariantD(6,7,8) [OF inv cl]
    from k(1) fresh have "m \<noteq> ?n" by (auto simp: empty_market_def)
    then show ?thesis using k by (auto simp: winning_stake_def split: if_splits)
  qed
qed

lemma invariant_bet_yes:
  assumes inv: "invariant s" and ex: "deadline (markets s m) \<noteq> 0"
    and unres: "\<not> resolved (markets s m)"
    and p: "unat (yesPool (markets s m)) + unat a < 2 ^ 256"
    and k: "unat (yesStakes s m who) + unat a < 2 ^ 256"
  shows "invariant (s\<lparr>token := t,
           markets := (markets s)(m := (markets s m)\<lparr>yesPool := yesPool (markets s m) + a\<rparr>),
           yesStakes := (yesStakes s)(m := (yesStakes s m)(who := yesStakes s m who + a))\<rparr>)"
    (is "invariant ?s'")
proof (rule invariantI)
  have sum: "(\<Sum>u\<in>UNIV. unat (((yesStakes s m)(who := yesStakes s m who + a)) u))
      = unat (yesPool (markets s m)) + unat a"
    using sum_unat_upd [of "yesStakes s m" who a] k invariantD(4) [OF inv] by simp
  have pool: "unat (yesPool (markets s m) + a) = unat (yesPool (markets s m)) + unat a"
    using p unat_add_lem [of "yesPool (markets s m)" a] by simp
  show "\<not> entered ?s'" using invariantD(1) [OF inv] by simp
  show "deadline (markets ?s' m') = 0" if "marketCount ?s' < m'" for m'
    using that ex invariantD(2) [OF inv, of m'] by (cases "m' = m") simp_all
  show "markets ?s' m' = empty_market" if "deadline (markets ?s' m') = 0" for m'
    using that ex invariantD(3) [OF inv, of m'] by (cases "m' = m") simp_all
  show "(\<Sum>u\<in>UNIV. unat (yesStakes ?s' m' u)) = unat (yesPool (markets ?s' m'))" for m'
    using invariantD(4) [OF inv, of m'] sum pool by (cases "m' = m") simp_all
  show "(\<Sum>u\<in>UNIV. unat (noStakes ?s' m' u)) = unat (noPool (markets ?s' m'))" for m'
    using invariantD(5) [OF inv, of m'] by (cases "m' = m") simp_all
  show "resolved (markets ?s' m') \<and> winning_stake ?s' m' u \<noteq> 0 \<and> winning_pool (markets ?s' m') \<noteq> 0"
    if "claimed ?s' m' u" for m' u
  proof -
    from that have cl: "claimed s m' u" by simp
    note f = invariantD(6,7,8) [OF inv cl]
    from f(1) unres have "m' \<noteq> m" by auto
    then show ?thesis using f by (auto simp: winning_stake_def winning_pool_def split: if_splits)
  qed
qed

lemma invariant_bet_no:
  assumes inv: "invariant s" and ex: "deadline (markets s m) \<noteq> 0"
    and unres: "\<not> resolved (markets s m)"
    and p: "unat (noPool (markets s m)) + unat a < 2 ^ 256"
    and k: "unat (noStakes s m who) + unat a < 2 ^ 256"
  shows "invariant (s\<lparr>token := t,
           markets := (markets s)(m := (markets s m)\<lparr>noPool := noPool (markets s m) + a\<rparr>),
           noStakes := (noStakes s)(m := (noStakes s m)(who := noStakes s m who + a))\<rparr>)"
    (is "invariant ?s'")
proof (rule invariantI)
  have sum: "(\<Sum>u\<in>UNIV. unat (((noStakes s m)(who := noStakes s m who + a)) u))
      = unat (noPool (markets s m)) + unat a"
    using sum_unat_upd [of "noStakes s m" who a] k invariantD(5) [OF inv] by simp
  have pool: "unat (noPool (markets s m) + a) = unat (noPool (markets s m)) + unat a"
    using p unat_add_lem [of "noPool (markets s m)" a] by simp
  show "\<not> entered ?s'" using invariantD(1) [OF inv] by simp
  show "deadline (markets ?s' m') = 0" if "marketCount ?s' < m'" for m'
    using that ex invariantD(2) [OF inv, of m'] by (cases "m' = m") simp_all
  show "markets ?s' m' = empty_market" if "deadline (markets ?s' m') = 0" for m'
    using that ex invariantD(3) [OF inv, of m'] by (cases "m' = m") simp_all
  show "(\<Sum>u\<in>UNIV. unat (yesStakes ?s' m' u)) = unat (yesPool (markets ?s' m'))" for m'
    using invariantD(4) [OF inv, of m'] by (cases "m' = m") simp_all
  show "(\<Sum>u\<in>UNIV. unat (noStakes ?s' m' u)) = unat (noPool (markets ?s' m'))" for m'
    using invariantD(5) [OF inv, of m'] sum pool by (cases "m' = m") simp_all
  show "resolved (markets ?s' m') \<and> winning_stake ?s' m' u \<noteq> 0 \<and> winning_pool (markets ?s' m') \<noteq> 0"
    if "claimed ?s' m' u" for m' u
  proof -
    from that have cl: "claimed s m' u" by simp
    note f = invariantD(6,7,8) [OF inv cl]
    from f(1) unres have "m' \<noteq> m" by auto
    then show ?thesis using f by (auto simp: winning_stake_def winning_pool_def split: if_splits)
  qed
qed

lemma invariant_resolve:
  assumes inv: "invariant s" and ex: "deadline (markets s m) \<noteq> 0"
    and unres: "\<not> resolved (markets s m)"
  shows "invariant (s\<lparr>markets := (markets s)(m := (markets s m)\<lparr>resolved := True, outcomeYes := b\<rparr>)\<rparr>)"
    (is "invariant ?s'")
proof (rule invariantI)
  show "\<not> entered ?s'" using invariantD(1) [OF inv] by simp
  show "deadline (markets ?s' m') = 0" if "marketCount ?s' < m'" for m'
    using that ex invariantD(2) [OF inv, of m'] by (cases "m' = m") simp_all
  show "markets ?s' m' = empty_market" if "deadline (markets ?s' m') = 0" for m'
    using that ex invariantD(3) [OF inv, of m'] by (cases "m' = m") simp_all
  show "(\<Sum>u\<in>UNIV. unat (yesStakes ?s' m' u)) = unat (yesPool (markets ?s' m'))" for m'
    using invariantD(4) [OF inv, of m'] by (cases "m' = m") simp_all
  show "(\<Sum>u\<in>UNIV. unat (noStakes ?s' m' u)) = unat (noPool (markets ?s' m'))" for m'
    using invariantD(5) [OF inv, of m'] by (cases "m' = m") simp_all
  show "resolved (markets ?s' m') \<and> winning_stake ?s' m' u \<noteq> 0 \<and> winning_pool (markets ?s' m') \<noteq> 0"
    if "claimed ?s' m' u" for m' u
  proof -
    from that have cl: "claimed s m' u" by simp
    note f = invariantD(6,7,8) [OF inv cl]
    from f(1) unres have "m' \<noteq> m" by auto
    then show ?thesis using f by (auto simp: winning_stake_def winning_pool_def split: if_splits)
  qed
qed

lemma invariant_claim:
  assumes inv: "invariant s" and r: "resolved (markets s m)"
    and ws: "winning_stake s m who \<noteq> 0" and wp: "winning_pool (markets s m) \<noteq> 0"
  shows "invariant (s\<lparr>claimed := (claimed s)(m := (claimed s m)(who := True)),
           accumulatedFees := fees, token := t\<rparr>)"
    (is "invariant ?s'")
proof (rule invariantI)
  have same: "winning_stake ?s' = winning_stake s"
    by (simp add: winning_stake_def fun_eq_iff)
  show "\<not> entered ?s'" using invariantD(1) [OF inv] by simp
  show "deadline (markets ?s' m') = 0" if "marketCount ?s' < m'" for m'
    using that invariantD(2) [OF inv, of m'] by simp
  show "markets ?s' m' = empty_market" if "deadline (markets ?s' m') = 0" for m'
    using that invariantD(3) [OF inv, of m'] by simp
  show "(\<Sum>u\<in>UNIV. unat (yesStakes ?s' m' u)) = unat (yesPool (markets ?s' m'))" for m'
    using invariantD(4) [OF inv, of m'] by simp
  show "(\<Sum>u\<in>UNIV. unat (noStakes ?s' m' u)) = unat (noPool (markets ?s' m'))" for m'
    using invariantD(5) [OF inv, of m'] by simp
  show "resolved (markets ?s' m') \<and> winning_stake ?s' m' u \<noteq> 0 \<and> winning_pool (markets ?s' m') \<noteq> 0"
    if "claimed ?s' m' u" for m' u
  proof (cases "m' = m \<and> u = who")
    case True
    then show ?thesis using r ws wp by (simp add: same)
  next
    case False
    with that have cl: "claimed s m' u" by (auto split: if_splits)
    show ?thesis using invariantD(6,7,8) [OF inv cl] by (simp add: same)
  qed
qed

lemma invariant_step:
  assumes inv: "invariant s"
  shows "invariant (apply_step x s)"
proof (cases x s rule: apply_step_cases)
  case same
  then show ?thesis using inv by simp
next
  case (token_activity t)
  show ?thesis unfolding token_activity(2) by (rule invariant_frame [OF inv]) simp_all
next
  case (create e q d)
  have d: "d \<noteq> 0" using create(2) by auto
  show ?thesis unfolding create(4) by (rule invariant_create [OF inv d create(3)])
next
  case (bet_yes e m a t)
  show ?thesis unfolding bet_yes(8)
    by (rule invariant_bet_yes [OF inv bet_yes(4,5,6,7)])
next
  case (bet_no e m a t)
  show ?thesis unfolding bet_no(8)
    by (rule invariant_bet_no [OF inv bet_no(4,5,6,7)])
next
  case (resolve e m b)
  show ?thesis unfolding resolve(5)
    by (rule invariant_resolve [OF inv resolve(3,4)])
next
  case (claim e m p fee t)
  note nz = calculatePayout_nonzero [OF claim(6,7)]
  show ?thesis unfolding claim(8)
    by (rule invariant_claim [OF inv nz])
next
  case (withdraw t)
  show ?thesis unfolding withdraw by (rule invariant_frame [OF inv]) simp_all
next
  case (set_fee n)
  show ?thesis unfolding set_fee by (rule invariant_frame [OF inv]) simp_all
next
  case (set_limits lo hi)
  show ?thesis unfolding set_limits by (rule invariant_frame [OF inv]) simp_all
qed

lemma invariant_run: "invariant s \<Longrightarrow> invariant (run xs s)"
  by (induction xs arbitrary: s) (simp_all add: invariant_step)

lemma reachable_invariant: "reachable s \<Longrightarrow> invariant s"
  by (induction rule: reachable.induct) (simp_all add: invariant_constructor invariant_step)

lemma reachable_run: "reachable s \<Longrightarrow> reachable (run xs s)"
  by (induction xs arbitrary: s) (simp_all add: reachable.stepped)

lemma reachable_iff_run:
  "reachable s \<longleftrightarrow>
     (\<exists>deployer self tok lo hi xs. s = run xs (constructor deployer self tok lo hi))"
proof
  assume "reachable s"
  then show "\<exists>deployer self tok lo hi xs. s = run xs (constructor deployer self tok lo hi)"
  proof (induction rule: reachable.induct)
    case (deployed deployer self tok lo hi)
    have "constructor deployer self tok lo hi = run [] (constructor deployer self tok lo hi)"
      by simp
    then show ?case by blast
  next
    case (stepped s x)
    then obtain deployer self tok lo hi xs
      where "s = run xs (constructor deployer self tok lo hi)" by blast
    then have "apply_step x s = run (xs @ [x]) (constructor deployer self tok lo hi)"
      by (simp add: run_append)
    then show ?case by blast
  qed
next
  assume "\<exists>deployer self tok lo hi xs. s = run xs (constructor deployer self tok lo hi)"
  then show "reachable s" using reachable_run [OF reachable.deployed] by auto
qed

lemma sum_winning_stake:
  assumes "invariant s"
  shows "(\<Sum>u\<in>UNIV. unat (winning_stake s m u)) = unat (winning_pool (markets s m))"
  using invariantD(4,5) [OF assms, of m] by (simp add: winning_stake_def winning_pool_def)

section \<open>What a step of the history cannot undo\<close>

lemma claimed_step: "claimed s m u \<Longrightarrow> claimed (apply_step x s) m u"
  by (cases x s rule: apply_step_cases) auto

lemma claimed_run: "claimed s m u \<Longrightarrow> claimed (run xs s) m u"
  by (induction xs arbitrary: s) (simp_all add: claimed_step)

lemma owner_step: "owner (apply_step x s) = owner s"
  by (cases x s rule: apply_step_cases) auto

lemma owner_run: "owner (run xs s) = owner s"
  by (induction xs arbitrary: s) (simp_all add: owner_step)

lemma resolved_step:
  assumes "invariant s" and "resolved (markets s m)"
  shows "markets (apply_step x s) m = markets s m"
    and "yesStakes (apply_step x s) m = yesStakes s m"
    and "noStakes (apply_step x s) m = noStakes s m"
proof -
  have ex: "deadline (markets s m) \<noteq> 0"
    by (rule invariant_resolved_exists [OF assms])
  have "markets (apply_step x s) m = markets s m \<and>
        yesStakes (apply_step x s) m = yesStakes s m \<and>
        noStakes (apply_step x s) m = noStakes s m"
  proof (cases x s rule: apply_step_cases)
    case (create e q d)
    have "marketCount s < marketCount s + 1" by (rule count_less_succ(1) [OF create(3)])
    then have "m \<noteq> marketCount s + 1"
      using invariantD(2) [OF assms(1), of m] ex by auto
    then show ?thesis by (simp add: create(4))
  qed (use assms(2) in auto)
  then show "markets (apply_step x s) m = markets s m"
    and "yesStakes (apply_step x s) m = yesStakes s m"
    and "noStakes (apply_step x s) m = noStakes s m" by simp_all
qed

lemma resolved_run:
  assumes "invariant s" and "resolved (markets s m)"
  shows "markets (run xs s) m = markets s m \<and> yesStakes (run xs s) m = yesStakes s m \<and>
         noStakes (run xs s) m = noStakes s m"
  using assms
proof (induction xs arbitrary: s)
  case Nil
  then show ?case by simp
next
  case (Cons x xs)
  note st = resolved_step [OF Cons.prems, of x]
  have "invariant (apply_step x s)" by (rule invariant_step [OF Cons.prems(1)])
  moreover have "resolved (markets (apply_step x s) m)" using st(1) Cons.prems(2) by simp
  ultimately show ?case using Cons.IH [of "apply_step x s"] st by simp
qed

lemma claimed_claim_fails:
  assumes "invariant s" and "claimed s m (msg_sender e)"
  shows "execute (Claim m) e s = (Inl AlreadyClaimed, s)"
proof -
  have r: "resolved (markets s m)" by (rule invariantD(6) [OF assms])
  have ex: "deadline (markets s m) \<noteq> 0" by (rule invariant_resolved_exists [OF assms(1) r])
  show ?thesis
    by (rule claim_fails [OF invariantD(1) [OF assms(1)] claim_body_claimed [OF ex r assms(2)]])
qed

lemma pools_step_mono:
  assumes "invariant s"
  shows "yesPool (markets s m) \<le> yesPool (markets (apply_step x s) m)"
    and "noPool (markets s m) \<le> noPool (markets (apply_step x s) m)"
proof -
  have "yesPool (markets s m) \<le> yesPool (markets (apply_step x s) m) \<and>
        noPool (markets s m) \<le> noPool (markets (apply_step x s) m)"
  proof (cases x s rule: apply_step_cases)
    case (create e q d)
    have "markets s (marketCount s + 1) = empty_market"
      using invariantD(2,3) [OF assms] count_less_succ(1) [OF create(3)] by blast
    then have "m = marketCount s + 1 \<Longrightarrow> yesPool (markets s m) = 0 \<and> noPool (markets s m) = 0"
      by (simp add: empty_market_def)
    then show ?thesis by (auto simp: create(4))
  next
    case (bet_yes e m' a t)
    have "unat (yesPool (markets s m') + a) = unat (yesPool (markets s m')) + unat a"
      using bet_yes(6) unat_add_lem [of "yesPool (markets s m')" a] by simp
    then have "yesPool (markets s m') \<le> yesPool (markets s m') + a"
      by (simp add: word_le_nat_alt)
    then show ?thesis by (simp add: bet_yes(8))
  next
    case (bet_no e m' a t)
    have "unat (noPool (markets s m') + a) = unat (noPool (markets s m')) + unat a"
      using bet_no(6) unat_add_lem [of "noPool (markets s m')" a] by simp
    then have "noPool (markets s m') \<le> noPool (markets s m') + a"
      by (simp add: word_le_nat_alt)
    then show ?thesis by (simp add: bet_no(8))
  qed auto
  then show "yesPool (markets s m) \<le> yesPool (markets (apply_step x s) m)"
    and "noPool (markets s m) \<le> noPool (markets (apply_step x s) m)" by simp_all
qed

lemma total_pool_bet:
  assumes "placeBet m' a y e s = Inr s'"
  shows "total_pool (markets s' m) = total_pool (markets s m) + (if m' = m then unat a else 0)"
proof (cases "m' = m")
  case True
  then show ?thesis using placeBet_effect [OF assms] by (cases y) (simp_all add: total_pool_def)
next
  case False
  then have "markets s' m = markets s m"
    using placeBet_yes [of m' a e s s'] placeBet_no [of m' a e s s'] assms by (cases y) auto
  with False show ?thesis by simp
qed

lemma total_pool_step:
  assumes "invariant s"
  shows "total_pool (markets (apply_step x s) m) = total_pool (markets s m) + accepted m x s"
proof (cases x)
  case (TokenActivity t)
  then show ?thesis by simp
next
  case (Tx e c)
  have other: "total_pool (markets (apply_step x s) m) = total_pool (markets s m)"
    if "\<And>m' a. c \<noteq> BetYes m' a" "\<And>m' a. c \<noteq> BetNo m' a"
  proof (cases x s rule: apply_step_cases)
    case (create e q d)
    have "markets s (marketCount s + 1) = empty_market"
      using invariantD(2,3) [OF assms] count_less_succ(1) [OF create(3)] by blast
    then have "m = marketCount s + 1 \<Longrightarrow> total_pool (markets s m) = 0"
      by (simp add: empty_market_def total_pool_def)
    then show ?thesis by (auto simp: create(4) total_pool_def)
  next
    case (bet_yes e m' a t)
    then show ?thesis using that Tx by simp
  next
    case (bet_no e m' a t)
    then show ?thesis using that Tx by simp
  qed (auto simp: total_pool_def)
  show ?thesis
  proof (cases c)
    case (BetYes m' a)
    show ?thesis
    proof (cases "betYes m' a e s")
      case (Inl err)
      then show ?thesis using Tx BetYes by (auto simp: execute_def no_return_def)
    next
      case (Inr s')
      then have "placeBet m' a True e s = Inr s'" by (simp add: betYes_eq split: if_splits)
      from total_pool_bet [OF this, of m] Inr show ?thesis
        using Tx BetYes by (auto simp: execute_def no_return_def)
    qed
  next
    case (BetNo m' a)
    show ?thesis
    proof (cases "betNo m' a e s")
      case (Inl err)
      then show ?thesis using Tx BetNo by (auto simp: execute_def no_return_def)
    next
      case (Inr s')
      then have "placeBet m' a False e s = Inr s'" by (simp add: betNo_eq split: if_splits)
      from total_pool_bet [OF this, of m] Inr show ?thesis
        using Tx BetNo by (auto simp: execute_def no_return_def)
    qed
  qed (use other Tx in simp_all)
qed

lemma total_pool_run:
  "invariant s \<Longrightarrow>
   total_pool (markets (run xs s) m) = total_pool (markets s m) + accepted_total m xs s"
proof (induction xs arbitrary: s)
  case Nil
  then show ?case by simp
next
  case (Cons x xs)
  have "invariant (apply_step x s)" by (rule invariant_step [OF Cons.prems])
  from Cons.IH [OF this] total_pool_step [OF Cons.prems, of x m] show ?case by simp
qed

section \<open>Facts about the concrete histories\<close>

lemmas demo_defs = demo_token_def demo_init_def demo_bets_def demo_open_def demo_resolved_def

lemmas eval_defs = constructor_def execute_def betYes_eq betNo_eq claim_eq placeBet_def
  claim_body_def calculatePayout_def resolveMarket_def createMarket_def onlyOwner_def
  safeTransfer_def safeTransferFrom_def erc20_move_def checked_add_def checked_mul_def
  checked_sub_def checked_div_def no_return_def view_uint_def Let_def empty_market_def
  BPS_DENOMINATOR_def

lemma demo_created_fields:
  "markets demo_created 1 = \<lparr>question = ''Will it rain?'', deadline = 100, resolved = False,
     outcomeYes = False, yesPool = 0, noPool = 0\<rparr>"
  "yesStakes demo_created 1 2 = 0" "minBetSize demo_created = 1" "maxBetSize demo_created = 1000"
  "this demo_created = 99" "token demo_created = demo_token" "\<not> entered demo_created"
  by (simp_all add: demo_created_def demo_defs eval_defs)

lemma demo_open_market:
  "markets demo_open 1 = \<lparr>question = ''Will it rain?'', deadline = 100, resolved = False,
     outcomeYes = False, yesPool = 700, noPool = 300\<rparr>"
  by (simp add: demo_defs eval_defs)

lemma demo_resolved_market:
  "markets demo_resolved 1 = \<lparr>question = ''Will it rain?'', deadline = 100, resolved = True,
     outcomeYes = True, yesPool = 700, noPool = 300\<rparr>"
  by (simp add: demo_defs eval_defs)

lemma demo_resolved_fields:
  "yesStakes demo_resolved 1 2 = 100" "platformFeeBps demo_resolved = 200"
  "\<not> entered demo_resolved" "\<not> claimed demo_resolved 1 2" "accumulatedFees demo_resolved = 0"
  "balanceOf (token demo_resolved) 99 = 1000" "this demo_resolved = 99"
  by (simp_all add: demo_defs eval_defs)

lemma demo_claim_succeeds:
  "fst (execute (Claim 1) \<lparr>msg_sender = 2, block_timestamp = 110\<rparr> demo_resolved) = Inr RNone"
  by (simp add: demo_resolved_market demo_resolved_fields eval_defs)

lemma whale_created_fields:
  "markets whale_created 1 = \<lparr>question = ''Will it rain?'', deadline = 100, resolved = False,
     outcomeYes = False, yesPool = 0, noPool = 0\<rparr>"
  "yesStakes whale_created 1 2 = 0" "minBetSize whale_created = 1" "maxBetSize whale_created = 0"
  "this whale_created = 99" "token whale_created = whale_token"
  by (simp_all add: whale_created_def eval_defs)

lemma whale_state_market:
  "markets whale_state 1 = \<lparr>question = ''Will it rain?'', deadline = 100, resolved = True,
     outcomeYes = True, yesPool = 2 ^ 128, noPool = 0\<rparr>"
  "yesStakes whale_state 1 2 = 2 ^ 128"
  by (simp_all add: whale_state_def whale_token_def eval_defs)

lemma lopsided_state_market:
  "markets lopsided_state 1 = \<lparr>question = ''Will it rain?'', deadline = 100, resolved = True,
     outcomeYes = True, yesPool = 0, noPool = 300\<rparr>"
  by (simp add: lopsided_state_def demo_defs eval_defs)

lemma reachable_demo_init: "reachable demo_init"
  unfolding demo_init_def by (rule reachable.deployed)

lemma reachable_demo_open: "reachable demo_open"
  unfolding demo_open_def by (rule reachable_run [OF reachable_demo_init])

lemma reachable_demo_resolved: "reachable demo_resolved"
  unfolding demo_resolved_def by (rule reachable.stepped [OF reachable_demo_open])

lemma reachable_whale_state: "reachable whale_state"
  unfolding whale_state_def by (rule reachable_run [OF reachable.deployed])

lemma reachable_lopsided_state: "reachable lopsided_state"
  unfolding lopsided_state_def by (rule reachable_run [OF reachable_demo_init])

section \<open>C1: a claim succeeds at most once\<close>

text \<open>
  Claim C1.  In every reachable state, for every market id and account:
  a \<open>claim\<close> that succeeds found the market existing, resolved, not yet claimed by the
  caller and with a non-zero computed payout; on an unresolved market it fails
  \<open>MarketNotResolved\<close>, for a caller who has claimed it fails \<open>AlreadyClaimed\<close>, and
  with a computed payout of zero it fails \<open>NoWinnings\<close>; and after one successful claim,
  whatever happens to the contract afterwards (the history \<open>xs\<close>), every later claim
  by the same account on the same market fails \<open>AlreadyClaimed\<close>.
\<close>

theorem claim_at_most_once:
  "reachable s \<Longrightarrow>
   (fst (execute (Claim m) e s) = Inr r \<longrightarrow>
      deadline (markets s m) \<noteq> 0 \<and> resolved (markets s m) \<and> \<not> claimed s m (msg_sender e) \<and>
      (\<exists>p. calculatePayout s m (msg_sender e) = Inr p \<and> p \<noteq> 0)) \<and>
   (deadline (markets s m) \<noteq> 0 \<and> \<not> resolved (markets s m) \<longrightarrow>
      execute (Claim m) e s = (Inl MarketNotResolved, s)) \<and>
   (claimed s m (msg_sender e) \<longrightarrow> execute (Claim m) e s = (Inl AlreadyClaimed, s)) \<and>
   (deadline (markets s m) \<noteq> 0 \<and> resolved (markets s m) \<and> \<not> claimed s m (msg_sender e) \<and>
    calculatePayout s m (msg_sender e) = Inr 0 \<longrightarrow>
      execute (Claim m) e s = (Inl NoWinnings, s)) \<and>
   (fst (execute (Claim m) e s) = Inr r \<and> msg_sender e' = msg_sender e \<longrightarrow>
      execute (Claim m) e' (run xs (snd (execute (Claim m) e s)))
        = (Inl AlreadyClaimed, run xs (snd (execute (Claim m) e s))))"
proof -
  assume reach: "reachable s"
  then have inv: "invariant s" by (rule reachable_invariant)
  note ne = invariantD(1) [OF inv]
  have 1: "deadline (markets s m) \<noteq> 0 \<and> resolved (markets s m) \<and> \<not> claimed s m (msg_sender e) \<and>
      (\<exists>p. calculatePayout s m (msg_sender e) = Inr p \<and> p \<noteq> 0)"
    if "fst (execute (Claim m) e s) = Inr r"
    using claim_body_Inr [OF claim_success(2) [OF that]] by blast
  have 2: "execute (Claim m) e s = (Inl MarketNotResolved, s)"
    if "deadline (markets s m) \<noteq> 0 \<and> \<not> resolved (markets s m)"
    using that claim_fails [OF ne claim_body_unresolved] by blast
  have 3: "execute (Claim m) e s = (Inl AlreadyClaimed, s)" if "claimed s m (msg_sender e)"
    using that by (rule claimed_claim_fails [OF inv])
  have 4: "execute (Claim m) e s = (Inl NoWinnings, s)"
    if "deadline (markets s m) \<noteq> 0 \<and> resolved (markets s m) \<and> \<not> claimed s m (msg_sender e) \<and>
        calculatePayout s m (msg_sender e) = Inr 0"
    using that claim_fails [OF ne claim_body_no_winnings] by blast
  have 5: "execute (Claim m) e' (run xs (snd (execute (Claim m) e s)))
        = (Inl AlreadyClaimed, run xs (snd (execute (Claim m) e s)))"
    if "fst (execute (Claim m) e s) = Inr r \<and> msg_sender e' = msg_sender e"
  proof -
    let ?s' = "snd (execute (Claim m) e s)"
    have s': "?s' = apply_step (Tx e (Claim m)) s" by simp
    from that claim_body_Inr [OF claim_success(2)] have "claimed ?s' m (msg_sender e)"
      by fastforce
    then have "claimed (run xs ?s') m (msg_sender e')"
      using that by (simp add: claimed_run)
    moreover have "invariant (run xs ?s')"
      unfolding s' by (rule invariant_run [OF invariant_step [OF inv]])
    ultimately show ?thesis by (rule claimed_claim_fails [rotated])
  qed
  show ?thesis using 1 2 3 4 5 by blast
qed

theorem claim_at_most_once_witness:
  "reachable demo_resolved \<and>
   fst (execute (Claim 1) \<lparr>msg_sender = 2, block_timestamp = 110\<rparr> demo_resolved) = Inr RNone \<and>
   fst (execute (Claim 1) \<lparr>msg_sender = 2, block_timestamp = 130\<rparr>
         (run [Tx \<lparr>msg_sender = 3, block_timestamp = 120\<rparr> (Claim 1)]
           (snd (execute (Claim 1) \<lparr>msg_sender = 2, block_timestamp = 110\<rparr> demo_resolved))))
     = Inl AlreadyClaimed \<and>
   execute (Claim 1) \<lparr>msg_sender = 4, block_timestamp = 110\<rparr> demo_resolved
     = (Inl NoWinnings, demo_resolved) \<and>
   execute (Claim 1) \<lparr>msg_sender = 2, block_timestamp = 50\<rparr> demo_open
     = (Inl MarketNotResolved, demo_open)"
proof -
  have p4: "calculatePayout demo_resolved 1 4 = Inr 0"
    by (simp add: demo_resolved_market calculatePayout_def checked_add_def Let_def)
       (simp add: demo_defs eval_defs)
  have a: "execute (Claim 1) \<lparr>msg_sender = 2, block_timestamp = 130\<rparr>
         (run [Tx \<lparr>msg_sender = 3, block_timestamp = 120\<rparr> (Claim 1)]
           (snd (execute (Claim 1) \<lparr>msg_sender = 2, block_timestamp = 110\<rparr> demo_resolved)))
     = (Inl AlreadyClaimed, run [Tx \<lparr>msg_sender = 3, block_timestamp = 120\<rparr> (Claim 1)]
           (snd (execute (Claim 1) \<lparr>msg_sender = 2, block_timestamp = 110\<rparr> demo_resolved)))"
    using claim_at_most_once [OF reachable_demo_resolved, of 1
        "\<lparr>msg_sender = 2, block_timestamp = 110\<rparr>" RNone
        "\<lparr>msg_sender = 2, block_timestamp = 130\<rparr>"
        "[Tx \<lparr>msg_sender = 3, block_timestamp = 120\<rparr> (Claim 1)]"]
      demo_claim_succeeds by simp
  have b: "execute (Claim 1) \<lparr>msg_sender = 4, block_timestamp = 110\<rparr> demo_resolved
     = (Inl NoWinnings, demo_resolved)"
    using claim_at_most_once [OF reachable_demo_resolved, of 1
        "\<lparr>msg_sender = 4, block_timestamp = 110\<rparr>"] p4
    by (simp add: demo_resolved_market) (simp add: demo_defs eval_defs)
  have c: "execute (Claim 1) \<lparr>msg_sender = 2, block_timestamp = 50\<rparr> demo_open
     = (Inl MarketNotResolved, demo_open)"
    using claim_at_most_once [OF reachable_demo_open, of 1
        "\<lparr>msg_sender = 2, block_timestamp = 50\<rparr>"]
    by (simp add: demo_open_market)
  show ?thesis using reachable_demo_resolved demo_claim_succeeds a b c by simp
qed

section \<open>C2: the fee split of a successful claim\<close>

text \<open>
  Claim C2.  When \<open>claim(marketId)\<close> succeeds, the gross payout \<open>p\<close> computed by
  \<open>calculatePayout\<close> is positive, the fee is \<open>floor(p * feeBps / 10000)\<close>, the
  accumulated fees grow by exactly that fee, and the token ledger moves exactly
  \<open>p - fee\<close> from the contract to the caller.  In particular, with \<open>yesPool = 700\<close>,
  \<open>noPool = 300\<close>, outcome yes, a yes-stake of 100 and a fee of 200 bps, the payout is
  142, the fee 2, and the caller receives 140.
\<close>

theorem claim_fee_split:
  "execute (Claim m) e s = (Inr r, s') \<Longrightarrow>
   (\<exists>p (fee::uint256). calculatePayout s m (msg_sender e) = Inr p \<and> 0 < unat p \<and>
        unat fee = unat p * unat (platformFeeBps s) div 10000 \<and>
        unat (accumulatedFees s') = unat (accumulatedFees s) + unat fee \<and>
        token s' = erc20_move (token s) (this s) (msg_sender e) (unat p - unat fee) \<and>
        (msg_sender e \<noteq> this s \<longrightarrow>
           balanceOf (token s') (msg_sender e)
             = balanceOf (token s) (msg_sender e) + (unat p - unat fee) \<and>
           balanceOf (token s') (this s) + (unat p - unat fee)
             = balanceOf (token s) (this s))) \<and>
   (resolved (markets s m) \<and> outcomeYes (markets s m) \<and>
    yesPool (markets s m) = 700 \<and> noPool (markets s m) = 300 \<and>
    yesStakes s m (msg_sender e) = 100 \<and> platformFeeBps s = 200 \<longrightarrow>
      calculatePayout s m (msg_sender e) = Inr 142 \<and>
      accumulatedFees s' = accumulatedFees s + 2 \<and>
      token s' = erc20_move (token s) (this s) (msg_sender e) 140)"
proof -
  assume ok: "execute (Claim m) e s = (Inr r, s')"
  from claim_effect [OF ok] obtain p fee where
    p: "calculatePayout s m (msg_sender e) = Inr p" "0 < unat p"
    and fee: "unat fee = unat p * unat (platformFeeBps s) div 10000" "unat fee \<le> unat p"
    and acc: "unat (accumulatedFees s') = unat (accumulatedFees s) + unat fee"
      "accumulatedFees s' = accumulatedFees s + fee"
    and bal: "unat p - unat fee \<le> balanceOf (token s) (this s)"
    and tok: "token s' = erc20_move (token s) (this s) (msg_sender e) (unat p - unat fee)"
    by blast
  have "calculatePayout s m (msg_sender e) = Inr p \<and> 0 < unat p \<and>
        unat fee = unat p * unat (platformFeeBps s) div 10000 \<and>
        unat (accumulatedFees s') = unat (accumulatedFees s) + unat fee \<and>
        token s' = erc20_move (token s) (this s) (msg_sender e) (unat p - unat fee) \<and>
        (msg_sender e \<noteq> this s \<longrightarrow>
           balanceOf (token s') (msg_sender e)
             = balanceOf (token s) (msg_sender e) + (unat p - unat fee) \<and>
           balanceOf (token s') (this s) + (unat p - unat fee)
             = balanceOf (token s) (this s))"
    using p fee(1) acc(1) tok bal erc20_move_balances [of "this s" "msg_sender e" "token s"]
    by simp
  then have general: "\<exists>p (fee::uint256). calculatePayout s m (msg_sender e) = Inr p \<and> 0 < unat p \<and>
        unat fee = unat p * unat (platformFeeBps s) div 10000 \<and>
        unat (accumulatedFees s') = unat (accumulatedFees s) + unat fee \<and>
        token s' = erc20_move (token s) (this s) (msg_sender e) (unat p - unat fee) \<and>
        (msg_sender e \<noteq> this s \<longrightarrow>
           balanceOf (token s') (msg_sender e)
             = balanceOf (token s) (msg_sender e) + (unat p - unat fee) \<and>
           balanceOf (token s') (this s) + (unat p - unat fee)
             = balanceOf (token s) (this s))"
    by blast
  have example: "calculatePayout s m (msg_sender e) = Inr 142 \<and>
      accumulatedFees s' = accumulatedFees s + 2 \<and>
      token s' = erc20_move (token s) (this s) (msg_sender e) 140"
    if ex: "resolved (markets s m) \<and> outcomeYes (markets s m) \<and>
      yesPool (markets s m) = 700 \<and> noPool (markets s m) = 300 \<and>
      yesStakes s m (msg_sender e) = 100 \<and> platformFeeBps s = 200"
  proof -
    from ex have "calculatePayout s m (msg_sender e) = Inr 142"
      by (simp add: calculatePayout_def Let_def checked_add_def checked_mul_def checked_div_def)
    with p(1) have p142: "p = 142" by simp
    with fee(1) ex have "unat fee = 2" by simp
    then have fee2: "fee = 2" by (auto simp: word_unat_eq_iff)
    show ?thesis using p(1) acc(2) tok by (simp add: p142 fee2)
  qed
  show ?thesis using general example by blast
qed

theorem claim_fee_split_witness:
  "execute (Claim 1) \<lparr>msg_sender = 2, block_timestamp = 110\<rparr> demo_resolved
     = (Inr RNone, snd (execute (Claim 1) \<lparr>msg_sender = 2, block_timestamp = 110\<rparr> demo_resolved)) \<and>
   calculatePayout demo_resolved 1 2 = Inr 142 \<and>
   accumulatedFees (snd (execute (Claim 1) \<lparr>msg_sender = 2, block_timestamp = 110\<rparr> demo_resolved)) = 2 \<and>
   balanceOf (token (snd (execute (Claim 1) \<lparr>msg_sender = 2, block_timestamp = 110\<rparr> demo_resolved))) 2 = 140 \<and>
   balanceOf (token (snd (execute (Claim 1) \<lparr>msg_sender = 2, block_timestamp = 110\<rparr> demo_resolved))) 99 = 860"
proof -
  let ?e = "\<lparr>msg_sender = 2, block_timestamp = 110\<rparr>"
  let ?s' = "snd (execute (Claim 1) ?e demo_resolved)"
  have ok: "execute (Claim 1) ?e demo_resolved = (Inr RNone, ?s')"
    using demo_claim_succeeds by (simp add: prod_eq_iff)
  have b: "balanceOf (token demo_resolved) 2 = 0"
    by (simp add: demo_defs eval_defs)
  from claim_fee_split [OF ok, THEN conjunct2] have
    "calculatePayout demo_resolved 1 2 = Inr 142 \<and> accumulatedFees ?s' = 2 \<and>
     token ?s' = erc20_move (token demo_resolved) 99 2 140"
    by (simp add: demo_resolved_market demo_resolved_fields)
  then show ?thesis using ok b
    by (simp add: erc20_move_def Let_def demo_resolved_fields)
qed

section \<open>C3: what calculatePayout returns\<close>

text \<open>
  Claim C3, as amended.  \<open>calculatePayout\<close> returns 0 for an unresolved market.  For a
  resolved market, with \<open>total = yesPool + noPool\<close> and the winning pool and winning
  stake the ones on the side of the fixed outcome: it returns 0 when the stake or the
  winning pool is 0, and \<open>floor(stake * total / winningPool)\<close> otherwise, as long as
  \<open>total\<close> and \<open>stake * total\<close> fit into 256 bits.  When they do not, the checked
  arithmetic of the contract reverts the call with \<open>Panic(0x11)\<close> instead of returning.
\<close>

theorem calculatePayout_spec:
  "(\<not> resolved (markets s m) \<longrightarrow> calculatePayout s m u = Inr 0) \<and>
   (resolved (markets s m) \<and> total_pool (markets s m) < 2 ^ 256 \<and>
      (winning_stake s m u = 0 \<or> winning_pool (markets s m) = 0)
      \<longrightarrow> calculatePayout s m u = Inr 0) \<and>
   (resolved (markets s m) \<and> winning_stake s m u \<noteq> 0 \<and> winning_pool (markets s m) \<noteq> 0 \<and>
      unat (winning_stake s m u) * total_pool (markets s m) < 2 ^ 256
      \<longrightarrow> (\<exists>p. calculatePayout s m u = Inr p \<and>
             unat p = unat (winning_stake s m u) * total_pool (markets s m)
                        div unat (winning_pool (markets s m)))) \<and>
   (resolved (markets s m) \<and>
      (2 ^ 256 \<le> total_pool (markets s m) \<or>
       (winning_stake s m u \<noteq> 0 \<and> winning_pool (markets s m) \<noteq> 0 \<and>
        2 ^ 256 \<le> unat (winning_stake s m u) * total_pool (markets s m)))
      \<longrightarrow> calculatePayout s m u = Inl (Panic 17))"
proof (intro conjI impI)
  show "calculatePayout s m u = Inr 0" if "\<not> resolved (markets s m)"
    using that by (rule calculatePayout_unresolved)
  show "calculatePayout s m u = Inr 0"
    if "resolved (markets s m) \<and> total_pool (markets s m) < 2 ^ 256 \<and>
        (winning_stake s m u = 0 \<or> winning_pool (markets s m) = 0)"
    using that calculatePayout_zero [of s m u] by blast
  show "\<exists>p. calculatePayout s m u = Inr p \<and>
          unat p = unat (winning_stake s m u) * total_pool (markets s m)
                     div unat (winning_pool (markets s m))"
    if "resolved (markets s m) \<and> winning_stake s m u \<noteq> 0 \<and> winning_pool (markets s m) \<noteq> 0 \<and>
        unat (winning_stake s m u) * total_pool (markets s m) < 2 ^ 256"
    using that calculatePayout_floor [of s m u] by blast
  show "calculatePayout s m u = Inl (Panic 17)"
    if "resolved (markets s m) \<and>
        (2 ^ 256 \<le> total_pool (markets s m) \<or>
         (winning_stake s m u \<noteq> 0 \<and> winning_pool (markets s m) \<noteq> 0 \<and>
          2 ^ 256 \<le> unat (winning_stake s m u) * total_pool (markets s m)))"
    using that calculatePayout_overflow [of s m u] by blast
qed

theorem calculatePayout_spec_witness:
  "resolved (markets demo_resolved 1) \<and> \<not> resolved (markets demo_open 1) \<and>
   winning_stake demo_resolved 1 2 = 100 \<and> winning_pool (markets demo_resolved 1) = 700 \<and>
   total_pool (markets demo_resolved 1) = 1000 \<and>
   calculatePayout demo_open 1 2 = Inr 0 \<and>
   calculatePayout demo_resolved 1 4 = Inr 0 \<and>
   calculatePayout demo_resolved 1 2 = Inr 142 \<and>
   calculatePayout whale_state 1 2 = Inl (Panic 17)"
proof -
  have a: "resolved (markets demo_resolved 1)" "\<not> resolved (markets demo_open 1)"
    "winning_stake demo_resolved 1 2 = 100" "winning_pool (markets demo_resolved 1) = 700"
    "total_pool (markets demo_resolved 1) = 1000" "winning_stake demo_resolved 1 4 = 0"
    by (simp_all add: demo_resolved_market demo_open_market demo_resolved_fields
        winning_stake_def winning_pool_def total_pool_def)
       (simp add: demo_defs eval_defs)
  have w: "resolved (markets whale_state 1)" "winning_stake whale_state 1 2 = 2 ^ 128"
    "winning_pool (markets whale_state 1) = 2 ^ 128" "total_pool (markets whale_state 1) = 2 ^ 128"
    by (simp_all add: whale_state_market winning_stake_def winning_pool_def total_pool_def)
  have 1: "calculatePayout demo_open 1 2 = Inr 0"
    using calculatePayout_spec [of demo_open 1 2] a by simp
  have 2: "calculatePayout demo_resolved 1 4 = Inr 0"
    using calculatePayout_spec [of demo_resolved 1 4] a by simp
  have "\<exists>p. calculatePayout demo_resolved 1 2 = Inr p \<and> unat p = 142"
    using calculatePayout_spec [of demo_resolved 1 2] a by simp
  then have 3: "calculatePayout demo_resolved 1 2 = Inr 142"
    by (auto simp: word_unat_eq_iff)
  have 4: "calculatePayout whale_state 1 2 = Inl (Panic 17)"
    using calculatePayout_spec [of whale_state 1 2] w by simp
  show ?thesis using a 1 2 3 4 by simp
qed

text \<open>
  The claim as the specification words it promises the quotient for every market and
  account.  A bettor who stakes \<open>2 ^ 128\<close> units alone on the winning side of a market
  is owed \<open>2 ^ 128\<close>, which a \<open>uint256\<close> holds, but the product
  \<open>stake * total = 2 ^ 256\<close> does not fit and the call reverts.
\<close>

theorem calculatePayout_floor_counterexample:
  "reachable whale_state \<and> resolved (markets whale_state 1) \<and>
   winning_stake whale_state 1 2 \<noteq> 0 \<and> winning_pool (markets whale_state 1) \<noteq> 0 \<and>
   unat (winning_stake whale_state 1 2) * total_pool (markets whale_state 1)
     div unat (winning_pool (markets whale_state 1)) = 2 ^ 128 \<and>
   calculatePayout whale_state 1 2 = Inl (Panic 17) \<and>
   calculatePayout whale_state 1 2 \<noteq> Inr (2 ^ 128)"
  using reachable_whale_state
  by (simp add: whale_state_market winning_stake_def winning_pool_def total_pool_def
      calculatePayout_def checked_add_def checked_mul_def Let_def)

section \<open>C4: the gross payouts never exceed the pool\<close>

text \<open>
  Claim C4.  In a reachable state, for a resolved market with a positive winning pool,
  the winning stakes of all accounts sum to the winning pool, and for every set \<open>A\<close> of
  accounts both the sum of \<open>floor(stake * total / winningPool)\<close> over \<open>A\<close> and the sum
  of what \<open>calculatePayout\<close> returns over \<open>A\<close> are at most \<open>total = yesPool + noPool\<close>:
  the shortfall (dust) is never negative.
\<close>

theorem payouts_within_pool:
  "reachable s \<Longrightarrow> resolved (markets s m) \<Longrightarrow> 0 < unat (winning_pool (markets s m)) \<Longrightarrow>
   (\<Sum>u\<in>UNIV. unat (winning_stake s m u)) = unat (winning_pool (markets s m)) \<and>
   (\<Sum>u\<in>A. unat (winning_stake s m u) * total_pool (markets s m)
               div unat (winning_pool (markets s m))) \<le> total_pool (markets s m) \<and>
   (\<Sum>u\<in>A. payout_of s m u) \<le> total_pool (markets s m)"
proof -
  assume reach: "reachable s" and r: "resolved (markets s m)"
    and wp: "0 < unat (winning_pool (markets s m))"
  let ?T = "total_pool (markets s m)"
  let ?W = "unat (winning_pool (markets s m))"
  let ?f = "\<lambda>u. unat (winning_stake s m u) * ?T"
  have inv: "invariant s" by (rule reachable_invariant [OF reach])
  note stakes = sum_winning_stake [OF inv, of m]
  have "(\<Sum>u\<in>A. ?f u div ?W) \<le> (\<Sum>u\<in>UNIV. ?f u div ?W)"
    by (rule sum_mono2) simp_all
  also have "\<dots> \<le> (\<Sum>u\<in>UNIV. ?f u) div ?W"
    by (rule sum_div_le) simp
  also have "(\<Sum>u\<in>UNIV. ?f u) = ?W * ?T"
    using stakes by (simp add: sum_distrib_right [symmetric])
  also have "?W * ?T div ?W = ?T" using wp by simp
  finally have formula: "(\<Sum>u\<in>A. ?f u div ?W) \<le> ?T" .
  have "(\<Sum>u\<in>A. payout_of s m u) \<le> (\<Sum>u\<in>A. ?f u div ?W)"
    by (rule sum_mono) (rule payout_of_le)
  with formula have "(\<Sum>u\<in>A. payout_of s m u) \<le> ?T" by simp
  with stakes formula show ?thesis by simp
qed

theorem payouts_within_pool_witness:
  "reachable demo_resolved \<and> resolved (markets demo_resolved 1) \<and>
   unat (winning_pool (markets demo_resolved 1)) = 700 \<and>
   total_pool (markets demo_resolved 1) = 1000 \<and>
   payout_of demo_resolved 1 2 = 142 \<and> payout_of demo_resolved 1 3 = 857 \<and>
   payout_of demo_resolved 1 2 + payout_of demo_resolved 1 3 \<le> 1000"
proof -
  have a: "resolved (markets demo_resolved 1)" "unat (winning_pool (markets demo_resolved 1)) = 700"
    "total_pool (markets demo_resolved 1) = 1000"
    by (simp_all add: demo_resolved_market winning_pool_def total_pool_def)
  have s3: "yesStakes demo_resolved 1 3 = 600" by (simp add: demo_defs eval_defs)
  have p: "payout_of demo_resolved 1 2 = 142" "payout_of demo_resolved 1 3 = 857"
    by (simp_all add: payout_of_def calculatePayout_def Let_def demo_resolved_market
        demo_resolved_fields s3 checked_add_def checked_mul_def checked_div_def)
  have "(\<Sum>u\<in>{2, 3}. payout_of demo_resolved 1 u) \<le> total_pool (markets demo_resolved 1)"
    using payouts_within_pool [OF reachable_demo_resolved, of 1 "{2, 3}"] a by simp
  then have "payout_of demo_resolved 1 2 + payout_of demo_resolved 1 3 \<le> 1000"
    using a by simp
  then show ?thesis using reachable_demo_resolved a p by simp
qed

section \<open>C5: a market is resolved exactly once\<close>

text \<open>
  Claim C5.  \<open>resolveMarket(marketId, outcomeYes)\<close> fails for every caller but the
  owner; for the owner it fails \<open>MarketDoesNotExist\<close> on an unknown market,
  \<open>MarketAlreadyResolved\<close> on a resolved one and \<open>MarketNotEnded\<close> when the current
  time is strictly before the deadline of an unresolved market.  In the one remaining
  case (the owner calls, the market exists, is unresolved and its deadline has passed)
  it succeeds, whichever outcome is passed, and changes nothing but the market's
  \<open>resolved\<close> flag, now true, and its outcome flag, now the value passed.  When it
  succeeds, those were the circumstances; and from then on, after any history \<open>xs\<close>,
  the market is resolved, its outcome flag is the value passed at that call, and every
  repeated call fails, with \<open>MarketAlreadyResolved\<close> when the owner makes it.
\<close>

theorem resolveMarket_once:
  "reachable s \<Longrightarrow>
   (msg_sender e \<noteq> owner s \<longrightarrow>
      execute (ResolveMarket m b) e s = (Inl (OwnableUnauthorizedAccount (msg_sender e)), s)) \<and>
   (msg_sender e = owner s \<and> deadline (markets s m) = 0 \<longrightarrow>
      execute (ResolveMarket m b) e s = (Inl MarketDoesNotExist, s)) \<and>
   (msg_sender e = owner s \<and> deadline (markets s m) \<noteq> 0 \<and> resolved (markets s m) \<longrightarrow>
      execute (ResolveMarket m b) e s = (Inl MarketAlreadyResolved, s)) \<and>
   (msg_sender e = owner s \<and> deadline (markets s m) \<noteq> 0 \<and> \<not> resolved (markets s m) \<and>
    block_timestamp e < ucast (deadline (markets s m)) \<longrightarrow>
      execute (ResolveMarket m b) e s = (Inl MarketNotEnded, s)) \<and>
   (msg_sender e = owner s \<and> deadline (markets s m) \<noteq> 0 \<and> \<not> resolved (markets s m) \<and>
    ucast (deadline (markets s m)) \<le> block_timestamp e \<longrightarrow>
      execute (ResolveMarket m b) e s
        = (Inr RNone,
           s\<lparr>markets := (markets s)(m := (markets s m)\<lparr>resolved := True, outcomeYes := b\<rparr>)\<rparr>) \<and>
      resolved (markets (snd (execute (ResolveMarket m b) e s)) m) \<and>
      outcomeYes (markets (snd (execute (ResolveMarket m b) e s)) m) = b) \<and>
   (fst (execute (ResolveMarket m b) e s) = Inr r \<longrightarrow>
      msg_sender e = owner s \<and> deadline (markets s m) \<noteq> 0 \<and> \<not> resolved (markets s m) \<and>
      ucast (deadline (markets s m)) \<le> block_timestamp e \<and>
      resolved (markets (run xs (snd (execute (ResolveMarket m b) e s))) m) \<and>
      outcomeYes (markets (run xs (snd (execute (ResolveMarket m b) e s))) m) = b \<and>
      (\<exists>x. fst (execute (ResolveMarket m b') e'
                 (run xs (snd (execute (ResolveMarket m b) e s)))) = Inl x) \<and>
      (msg_sender e' = owner (run xs (snd (execute (ResolveMarket m b) e s))) \<longrightarrow>
         execute (ResolveMarket m b') e' (run xs (snd (execute (ResolveMarket m b) e s)))
           = (Inl MarketAlreadyResolved, run xs (snd (execute (ResolveMarket m b) e s)))))"
proof -
  assume reach: "reachable s"
  have inv: "invariant s" by (rule reachable_invariant [OF reach])
  have 1: "execute (ResolveMarket m b) e s = (Inl (OwnableUnauthorizedAccount (msg_sender e)), s)"
    if "msg_sender e \<noteq> owner s"
    using that by (simp add: execute_resolve resolveMarket_unauthorized)
  have 2: "execute (ResolveMarket m b) e s = (Inl MarketDoesNotExist, s)"
    if "msg_sender e = owner s \<and> deadline (markets s m) = 0"
    using that by (simp add: execute_resolve resolveMarket_owner)
  have already: "execute (ResolveMarket m b) e s = (Inl MarketAlreadyResolved, s)"
    if "msg_sender e = owner s \<and> deadline (markets s m) \<noteq> 0 \<and> resolved (markets s m)"
    using that by (simp add: execute_resolve resolveMarket_owner)
  have 3: "execute (ResolveMarket m b) e s = (Inl MarketNotEnded, s)"
    if "msg_sender e = owner s \<and> deadline (markets s m) \<noteq> 0 \<and> \<not> resolved (markets s m) \<and>
        block_timestamp e < ucast (deadline (markets s m))"
    using that by (simp add: execute_resolve resolveMarket_owner)
  have succeeds: "execute (ResolveMarket m b) e s
        = (Inr RNone,
           s\<lparr>markets := (markets s)(m := (markets s m)\<lparr>resolved := True, outcomeYes := b\<rparr>)\<rparr>) \<and>
      resolved (markets (snd (execute (ResolveMarket m b) e s)) m) \<and>
      outcomeYes (markets (snd (execute (ResolveMarket m b) e s)) m) = b"
    if pre: "msg_sender e = owner s \<and> deadline (markets s m) \<noteq> 0 \<and> \<not> resolved (markets s m) \<and>
        ucast (deadline (markets s m)) \<le> block_timestamp e"
  proof -
    from pre have "resolveMarket m b e s
        = Inr (s\<lparr>markets := (markets s)(m := (markets s m)\<lparr>resolved := True, outcomeYes := b\<rparr>)\<rparr>)"
      by (simp add: resolveMarket_Inr not_less)
    then have "execute (ResolveMarket m b) e s
        = (Inr RNone,
           s\<lparr>markets := (markets s)(m := (markets s m)\<lparr>resolved := True, outcomeYes := b\<rparr>)\<rparr>)"
      by (simp add: execute_resolve)
    then show ?thesis by simp
  qed
  have 4: "msg_sender e = owner s \<and> deadline (markets s m) \<noteq> 0 \<and> \<not> resolved (markets s m) \<and>
      ucast (deadline (markets s m)) \<le> block_timestamp e \<and>
      resolved (markets (run xs (snd (execute (ResolveMarket m b) e s))) m) \<and>
      outcomeYes (markets (run xs (snd (execute (ResolveMarket m b) e s))) m) = b \<and>
      (\<exists>x. fst (execute (ResolveMarket m b') e'
                 (run xs (snd (execute (ResolveMarket m b) e s)))) = Inl x) \<and>
      (msg_sender e' = owner (run xs (snd (execute (ResolveMarket m b) e s))) \<longrightarrow>
         execute (ResolveMarket m b') e' (run xs (snd (execute (ResolveMarket m b) e s)))
           = (Inl MarketAlreadyResolved, run xs (snd (execute (ResolveMarket m b) e s))))"
    if ok: "fst (execute (ResolveMarket m b) e s) = Inr r"
  proof -
    let ?s1 = "snd (execute (ResolveMarket m b) e s)"
    let ?s' = "run xs ?s1"
    from ok have res: "resolveMarket m b e s = Inr ?s1"
      by (auto simp: execute_resolve split: sum.splits)
    then have pre: "msg_sender e = owner s" "deadline (markets s m) \<noteq> 0"
      "\<not> resolved (markets s m)" "ucast (deadline (markets s m)) \<le> block_timestamp e"
      and s1: "?s1 = s\<lparr>markets := (markets s)(m := (markets s m)\<lparr>resolved := True, outcomeYes := b\<rparr>)\<rparr>"
      unfolding resolveMarket_Inr by (simp_all add: not_less)
    have m1: "resolved (markets ?s1 m)" "outcomeYes (markets ?s1 m) = b"
      by (simp_all add: s1)
    have inv1: "invariant ?s1"
      using invariant_step [OF inv, of "Tx e (ResolveMarket m b)"] by simp
    have inv': "invariant ?s'" by (rule invariant_run [OF inv1])
    have same: "markets ?s' m = markets ?s1 m"
      using resolved_run [OF inv1 m1(1), of xs] by simp
    have r': "resolved (markets ?s' m)" and o': "outcomeYes (markets ?s' m) = b"
      using m1 by (simp_all add: same)
    have ex': "deadline (markets ?s' m) \<noteq> 0"
      by (rule invariant_resolved_exists [OF inv' r'])
    have fail: "\<exists>x. fst (execute (ResolveMarket m b') e' ?s') = Inl x"
      using resolveMarket_unauthorized [of e' ?s' m b']
        resolveMarket_owner(2) [OF _ ex' r', of e' b']
      by (cases "msg_sender e' = owner ?s'") (auto simp: execute_resolve)
    have again: "execute (ResolveMarket m b') e' ?s' = (Inl MarketAlreadyResolved, ?s')"
      if "msg_sender e' = owner ?s'"
      using that resolveMarket_owner(2) [OF _ ex' r', of e' b']
      by (simp add: execute_resolve)
    show ?thesis using pre r' o' fail again by blast
  qed
  show ?thesis using 1 2 already 3 succeeds 4 by blast
qed

theorem resolveMarket_once_witness:
  "reachable demo_open \<and>
   execute (ResolveMarket 1 True) \<lparr>msg_sender = 2, block_timestamp = 100\<rparr> demo_open
     = (Inl (OwnableUnauthorizedAccount 2), demo_open) \<and>
   execute (ResolveMarket 7 True) \<lparr>msg_sender = 1, block_timestamp = 100\<rparr> demo_open
     = (Inl MarketDoesNotExist, demo_open) \<and>
   execute (ResolveMarket 1 True) \<lparr>msg_sender = 1, block_timestamp = 99\<rparr> demo_open
     = (Inl MarketNotEnded, demo_open) \<and>
   fst (execute (ResolveMarket 1 True) \<lparr>msg_sender = 1, block_timestamp = 100\<rparr> demo_open)
     = Inr RNone \<and>
   resolved (markets demo_resolved 1) \<and> outcomeYes (markets demo_resolved 1) \<and>
   fst (execute (ResolveMarket 1 False) \<lparr>msg_sender = 1, block_timestamp = 100\<rparr> demo_open)
     = Inr RNone \<and>
   resolved (markets (snd (execute (ResolveMarket 1 False)
     \<lparr>msg_sender = 1, block_timestamp = 100\<rparr> demo_open)) 1) \<and>
   \<not> outcomeYes (markets (snd (execute (ResolveMarket 1 False)
     \<lparr>msg_sender = 1, block_timestamp = 100\<rparr> demo_open)) 1) \<and>
   execute (ResolveMarket 1 False) \<lparr>msg_sender = 1, block_timestamp = 200\<rparr> demo_resolved
     = (Inl MarketAlreadyResolved, demo_resolved)"
proof -
  let ?e = "\<lparr>msg_sender = 1, block_timestamp = 100\<rparr>"
  have o: "owner demo_open = 1" "deadline (markets demo_open 7) = 0" "owner demo_resolved = 1"
    by (simp_all add: demo_defs eval_defs)
  note t = resolveMarket_once [OF reachable_demo_open]
  have yes: "fst (execute (ResolveMarket 1 True) ?e demo_open) = Inr RNone \<and>
     resolved (markets (snd (execute (ResolveMarket 1 True) ?e demo_open)) 1) \<and>
     outcomeYes (markets (snd (execute (ResolveMarket 1 True) ?e demo_open)) 1)"
    using t [of ?e 1 True] o by (simp add: demo_open_market)
  have no: "fst (execute (ResolveMarket 1 False) ?e demo_open) = Inr RNone \<and>
     resolved (markets (snd (execute (ResolveMarket 1 False) ?e demo_open)) 1) \<and>
     \<not> outcomeYes (markets (snd (execute (ResolveMarket 1 False) ?e demo_open)) 1)"
    using t [of ?e 1 False] o by (simp add: demo_open_market)
  have s': "run [] (snd (execute (ResolveMarket 1 True) ?e demo_open)) = demo_resolved"
    by (simp add: demo_resolved_def)
  have a: "execute (ResolveMarket 1 True) \<lparr>msg_sender = 2, block_timestamp = 100\<rparr> demo_open
     = (Inl (OwnableUnauthorizedAccount 2), demo_open)"
    using t [of "\<lparr>msg_sender = 2, block_timestamp = 100\<rparr>" 1 True] o by simp
  have b: "execute (ResolveMarket 7 True) ?e demo_open = (Inl MarketDoesNotExist, demo_open)"
    using t [of ?e 7 True] o by simp
  have c: "execute (ResolveMarket 1 True) \<lparr>msg_sender = 1, block_timestamp = 99\<rparr> demo_open
     = (Inl MarketNotEnded, demo_open)"
    using t [of "\<lparr>msg_sender = 1, block_timestamp = 99\<rparr>" 1 True] o
    by (simp add: demo_open_market)
  have d: "resolved (markets demo_resolved 1) \<and> outcomeYes (markets demo_resolved 1) \<and>
     execute (ResolveMarket 1 False) \<lparr>msg_sender = 1, block_timestamp = 200\<rparr> demo_resolved
       = (Inl MarketAlreadyResolved, demo_resolved)"
    using t [of ?e 1 True RNone "[]" False "\<lparr>msg_sender = 1, block_timestamp = 200\<rparr>"] yes o
    unfolding s' by simp
  show ?thesis using reachable_demo_open a b c yes no d by simp
qed

section \<open>C6: placing a bet\<close>

text \<open>
  Claim C6.  \<open>placeBet(marketId, amount, side)\<close> succeeds only when the market exists,
  is unresolved, the current time is strictly before the deadline, the amount is at least
  \<open>minBetSize\<close> and at most \<open>maxBetSize\<close> unless \<open>maxBetSize\<close> is 0; on success the pool
  and the caller's stake on the chosen side each grow by exactly the amount and the
  other side is untouched.  Once the current time has reached the deadline it fails
  \<open>MarketEnded\<close> on an existing, unresolved market.  When all those conditions hold, the
  token pull succeeds and the additions fit into 256 bits, it does succeed.  The entry
  points \<open>betYes\<close> and \<open>betNo\<close> are \<open>placeBet\<close> behind the reentrancy lock.
\<close>

theorem placeBet_spec:
  "(placeBet m a y e s = Inr s' \<longrightarrow>
      deadline (markets s m) \<noteq> 0 \<and> \<not> resolved (markets s m) \<and>
      block_timestamp e < ucast (deadline (markets s m)) \<and>
      minBetSize s \<le> a \<and> (maxBetSize s = 0 \<or> a \<le> maxBetSize s) \<and>
      (y \<longrightarrow> unat (yesPool (markets s' m)) = unat (yesPool (markets s m)) + unat a \<and>
           unat (yesStakes s' m (msg_sender e)) = unat (yesStakes s m (msg_sender e)) + unat a \<and>
           noPool (markets s' m) = noPool (markets s m) \<and> noStakes s' = noStakes s) \<and>
      (\<not> y \<longrightarrow> unat (noPool (markets s' m)) = unat (noPool (markets s m)) + unat a \<and>
           unat (noStakes s' m (msg_sender e)) = unat (noStakes s m (msg_sender e)) + unat a \<and>
           yesPool (markets s' m) = yesPool (markets s m) \<and> yesStakes s' = yesStakes s)) \<and>
   (deadline (markets s m) \<noteq> 0 \<and> \<not> resolved (markets s m) \<and>
    ucast (deadline (markets s m)) \<le> block_timestamp e \<longrightarrow>
      placeBet m a y e s = Inl MarketEnded) \<and>
   (deadline (markets s m) \<noteq> 0 \<and> \<not> resolved (markets s m) \<and>
    block_timestamp e < ucast (deadline (markets s m)) \<and>
    minBetSize s \<le> a \<and> (maxBetSize s = 0 \<or> a \<le> maxBetSize s) \<and>
    safeTransferFrom (token s) (this s) (msg_sender e) (this s) a = Inr t \<and>
    unat (if y then yesPool (markets s m) else noPool (markets s m)) + unat a < 2 ^ 256 \<and>
    unat (if y then yesStakes s m (msg_sender e) else noStakes s m (msg_sender e)) + unat a
      < 2 ^ 256 \<longrightarrow>
      (\<exists>s''. placeBet m a y e s = Inr s'')) \<and>
   (\<not> entered s \<longrightarrow>
      betYes m a e s = placeBet m a True e s \<and> betNo m a e s = placeBet m a False e s)"
proof -
  have 1: "deadline (markets s m) \<noteq> 0 \<and> \<not> resolved (markets s m) \<and>
      block_timestamp e < ucast (deadline (markets s m)) \<and>
      minBetSize s \<le> a \<and> (maxBetSize s = 0 \<or> a \<le> maxBetSize s) \<and>
      (y \<longrightarrow> unat (yesPool (markets s' m)) = unat (yesPool (markets s m)) + unat a \<and>
           unat (yesStakes s' m (msg_sender e)) = unat (yesStakes s m (msg_sender e)) + unat a \<and>
           noPool (markets s' m) = noPool (markets s m) \<and> noStakes s' = noStakes s) \<and>
      (\<not> y \<longrightarrow> unat (noPool (markets s' m)) = unat (noPool (markets s m)) + unat a \<and>
           unat (noStakes s' m (msg_sender e)) = unat (noStakes s m (msg_sender e)) + unat a \<and>
           yesPool (markets s' m) = yesPool (markets s m) \<and> yesStakes s' = yesStakes s)"
    if ok: "placeBet m a y e s = Inr s'"
    using placeBet_checks [OF ok] placeBet_effect [OF ok] by blast
  have 2: "placeBet m a y e s = Inl MarketEnded"
    if "deadline (markets s m) \<noteq> 0 \<and> \<not> resolved (markets s m) \<and>
        ucast (deadline (markets s m)) \<le> block_timestamp e"
    using that placeBet_ended by blast
  have 3: "\<exists>s''. placeBet m a y e s = Inr s''"
    if "deadline (markets s m) \<noteq> 0 \<and> \<not> resolved (markets s m) \<and>
      block_timestamp e < ucast (deadline (markets s m)) \<and>
      minBetSize s \<le> a \<and> (maxBetSize s = 0 \<or> a \<le> maxBetSize s) \<and>
      safeTransferFrom (token s) (this s) (msg_sender e) (this s) a = Inr t \<and>
      unat (if y then yesPool (markets s m) else noPool (markets s m)) + unat a < 2 ^ 256 \<and>
      unat (if y then yesStakes s m (msg_sender e) else noStakes s m (msg_sender e)) + unat a
        < 2 ^ 256"
    using that placeBet_succeeds [of s m e a t y] by blast
  have 4: "betYes m a e s = placeBet m a True e s \<and> betNo m a e s = placeBet m a False e s"
    if "\<not> entered s"
    using that by (simp add: betYes_eq betNo_eq)
  show ?thesis using 1 2 3 4 by blast
qed

theorem placeBet_spec_witness:
  "(\<exists>s'. placeBet 1 100 True \<lparr>msg_sender = 2, block_timestamp = 20\<rparr> demo_created = Inr s' \<and>
         unat (yesPool (markets s' 1)) = 100 \<and> unat (yesStakes s' 1 2) = 100 \<and>
         noPool (markets s' 1) = 0) \<and>
   placeBet 1 100 True \<lparr>msg_sender = 2, block_timestamp = 100\<rparr> demo_open = Inl MarketEnded \<and>
   maxBetSize whale_created = 0 \<and>
   (\<exists>s'. placeBet 1 (2 ^ 128) True \<lparr>msg_sender = 2, block_timestamp = 20\<rparr> whale_created = Inr s') \<and>
   betYes 1 100 \<lparr>msg_sender = 2, block_timestamp = 20\<rparr> demo_created
     = placeBet 1 100 True \<lparr>msg_sender = 2, block_timestamp = 20\<rparr> demo_created"
proof -
  let ?e = "\<lparr>msg_sender = 2, block_timestamp = 20\<rparr>"
  have pull: "safeTransferFrom demo_token 99 2 99 100
      = Inr ((erc20_move demo_token 2 99 100)
          \<lparr>allowance := (allowance demo_token)(2 := (allowance demo_token 2)(99 := 0))\<rparr>)"
    by (simp add: safeTransferFrom_def demo_token_def)
  have "\<exists>s'. placeBet 1 100 True ?e demo_created = Inr s'"
    using placeBet_spec [of 1 100 True ?e demo_created _
        "(erc20_move demo_token 2 99 100)
          \<lparr>allowance := (allowance demo_token)(2 := (allowance demo_token 2)(99 := 0))\<rparr>"] pull
    by (simp add: demo_created_fields)
  then obtain s' where ok: "placeBet 1 100 True ?e demo_created = Inr s'" by blast
  have a: "unat (yesPool (markets s' 1)) = 100 \<and> unat (yesStakes s' 1 2) = 100 \<and>
         noPool (markets s' 1) = 0"
    using placeBet_spec [of 1 100 True ?e demo_created s'] ok
    by (simp add: demo_created_fields)
  have b: "placeBet 1 100 True \<lparr>msg_sender = 2, block_timestamp = 100\<rparr> demo_open = Inl MarketEnded"
    using placeBet_spec [of 1 100 True "\<lparr>msg_sender = 2, block_timestamp = 100\<rparr>" demo_open]
    by (simp add: demo_open_market)
  have wpull: "safeTransferFrom whale_token 99 2 99 (2 ^ 128)
      = Inr ((erc20_move whale_token 2 99 (2 ^ 128))
          \<lparr>allowance := (allowance whale_token)(2 := (allowance whale_token 2)(99 := 0))\<rparr>)"
    by (simp add: safeTransferFrom_def whale_token_def)
  have c: "\<exists>s'. placeBet 1 (2 ^ 128) True ?e whale_created = Inr s'"
    using placeBet_spec [of 1 "2 ^ 128" True ?e whale_created _
        "(erc20_move whale_token 2 99 (2 ^ 128))
          \<lparr>allowance := (allowance whale_token)(2 := (allowance whale_token 2)(99 := 0))\<rparr>"] wpull
    by (simp add: whale_created_fields)
  have d: "betYes 1 100 ?e demo_created = placeBet 1 100 True ?e demo_created"
    using placeBet_spec [of 1 100 True ?e demo_created] by (simp add: demo_created_fields)
  show ?thesis using ok a b c d by (auto simp: whale_created_fields)
qed

section \<open>C7: every operation is all-or-nothing\<close>

text \<open>
  Claim C7.  For every call of the contract (\<open>createMarket\<close>, the bets, \<open>resolveMarket\<close>,
  \<open>claim\<close>, \<open>withdrawFees\<close>, \<open>setFee\<close>, \<open>setBetLimits\<close> and the views) and every
  starting state: if the call fails with any error, the state afterwards is the state
  before.  In particular \<open>createMarket\<close> with a deadline that is not in the future
  fails \<open>DeadlineMustBeFuture\<close> and leaves the market counter unchanged.
\<close>

theorem execute_all_or_nothing:
  "(fst (execute c e s) = Inl x \<longrightarrow> snd (execute c e s) = s) \<and>
   (ucast d \<le> block_timestamp e \<longrightarrow>
      execute (CreateMarket q d) e s = (Inl DeadlineMustBeFuture, s) \<and>
      marketCount (snd (execute (CreateMarket q d) e s)) = marketCount s)"
proof -
  have 1: "snd (execute c e s) = s" if "fst (execute c e s) = Inl x"
    using that by (auto simp: execute_def split: sum.splits)
  have 2: "execute (CreateMarket q d) e s = (Inl DeadlineMustBeFuture, s)"
    if "ucast d \<le> block_timestamp e"
    using that by (simp add: execute_def createMarket_def)
  show ?thesis using 1 2 by simp
qed

theorem execute_all_or_nothing_witness:
  "execute (CreateMarket ''Too late'' 9) \<lparr>msg_sender = 2, block_timestamp = 10\<rparr> demo_open
     = (Inl DeadlineMustBeFuture, demo_open) \<and>
   marketCount (snd (execute (CreateMarket ''Too late'' 9)
     \<lparr>msg_sender = 2, block_timestamp = 10\<rparr> demo_open)) = 1 \<and>
   fst (execute (BetYes 1 100) \<lparr>msg_sender = 2, block_timestamp = 50\<rparr> demo_open)
     = Inl SafeERC20FailedOperation \<and>
   snd (execute (BetYes 1 100) \<lparr>msg_sender = 2, block_timestamp = 50\<rparr> demo_open) = demo_open"
proof -
  have mc: "marketCount demo_open = 1" by (simp add: demo_defs eval_defs)
  have f: "fst (execute (BetYes 1 100) \<lparr>msg_sender = 2, block_timestamp = 50\<rparr> demo_open)
     = Inl SafeERC20FailedOperation"
    by (simp add: demo_defs eval_defs)
  show ?thesis
    using execute_all_or_nothing [of "BetYes 1 100" "\<lparr>msg_sender = 2, block_timestamp = 50\<rparr>"
        demo_open SafeERC20FailedOperation 9 "''Too late''"]
      execute_all_or_nothing [of "CreateMarket ''Too late'' 9"
        "\<lparr>msg_sender = 2, block_timestamp = 10\<rparr>" demo_open DeadlineMustBeFuture 9 "''Too late''"]
      f mc
    by simp
qed

section \<open>C8: the pools are the accepted bets\<close>

text \<open>
  Claim C8.  After any history \<open>xs\<close> of a freshly deployed contract, for every market,
  \<open>yesPool + noPool\<close> equals the sum of the amounts of the bets on that market that the
  history accepted (before resolution and after, since a resolved market accepts no
  bet); and no step taken from a reachable state decreases either pool.
\<close>

theorem pools_equal_accepted_bets:
  "total_pool (markets (run xs (constructor deployer self tok lo hi)) m)
     = accepted_total m xs (constructor deployer self tok lo hi) \<and>
   (reachable s \<longrightarrow>
      yesPool (markets s m) \<le> yesPool (markets (apply_step x s) m) \<and>
      noPool (markets s m) \<le> noPool (markets (apply_step x s) m))"
proof -
  have "total_pool (markets (constructor deployer self tok lo hi) m) = 0"
    by (simp add: constructor_def empty_market_def total_pool_def)
  then have "total_pool (markets (run xs (constructor deployer self tok lo hi)) m)
     = accepted_total m xs (constructor deployer self tok lo hi)"
    using total_pool_run [OF invariant_constructor, of xs deployer self tok lo hi m] by simp
  then show ?thesis using pools_step_mono [OF reachable_invariant, of s m x] by blast
qed

theorem pools_equal_accepted_bets_witness:
  "reachable demo_created \<and>
   total_pool (markets demo_open 1) = 1000 \<and>
   accepted_total 1 demo_bets demo_init = 1000 \<and>
   yesPool (markets demo_created 1) = 0 \<and>
   yesPool (markets (apply_step (Tx \<lparr>msg_sender = 2, block_timestamp = 20\<rparr> (BetYes 1 100))
     demo_created) 1) = 100 \<and>
   (0::uint256) \<le> 100"
proof -
  have r: "reachable demo_created"
    unfolding demo_created_def by (rule reachable.stepped [OF reachable_demo_init])
  have t: "total_pool (markets demo_open 1) = 1000"
    by (simp add: demo_open_market total_pool_def)
  have a: "accepted_total 1 demo_bets demo_init = 1000"
    using pools_equal_accepted_bets [of demo_bets 1 99 demo_token 1 1000 1] t
    by (simp add: demo_open_def demo_init_def)
  have y: "yesPool (markets (apply_step (Tx \<lparr>msg_sender = 2, block_timestamp = 20\<rparr> (BetYes 1 100))
     demo_created) 1) = 100"
    by (simp add: demo_created_def demo_defs eval_defs)
  have "yesPool (markets demo_created 1)
      \<le> yesPool (markets (apply_step (Tx \<lparr>msg_sender = 2, block_timestamp = 20\<rparr> (BetYes 1 100))
     demo_created) 1)"
    using pools_equal_accepted_bets [of "[]" 1 99 demo_token 1 1000 1 demo_created
        "Tx \<lparr>msg_sender = 2, block_timestamp = 20\<rparr> (BetYes 1 100)"] r by simp
  then show ?thesis using r t a y by (simp add: demo_created_fields)
qed

section \<open>C9: getMarket never fails\<close>

text \<open>
  Claim C9, as amended.  For every id, \<open>getMarket(id)\<close> never fails: it returns the
  stored tuple (question, deadline, resolved, outcome, yesPool, noPool) and leaves the
  state unchanged; when no market with that id exists, in a reachable state, the tuple
  is all zero (empty question, deadline 0, unresolved, outcome false, both pools 0).
\<close>

theorem getMarket_total:
  "execute (GetMarket m) e s
     = (Inr (RMarket (question (markets s m)) (deadline (markets s m)) (resolved (markets s m))
               (outcomeYes (markets s m)) (yesPool (markets s m)) (noPool (markets s m))), s) \<and>
   (reachable s \<and> deadline (markets s m) = 0 \<longrightarrow>
      execute (GetMarket m) e s = (Inr (RMarket [] 0 False False 0 0), s))"
proof -
  have 1: "execute (GetMarket m) e s
     = (Inr (RMarket (question (markets s m)) (deadline (markets s m)) (resolved (markets s m))
               (outcomeYes (markets s m)) (yesPool (markets s m)) (noPool (markets s m))), s)"
    by (simp add: execute_def getMarket_def Let_def)
  have "markets s m = empty_market" if "reachable s \<and> deadline (markets s m) = 0"
    using that invariantD(3) [OF reachable_invariant] by blast
  then have 2: "execute (GetMarket m) e s = (Inr (RMarket [] 0 False False 0 0), s)"
    if "reachable s \<and> deadline (markets s m) = 0"
    using that 1 by (simp add: empty_market_def)
  show ?thesis using 1 2 by blast
qed

theorem getMarket_total_witness:
  "reachable demo_open \<and> deadline (markets demo_open 7) = 0 \<and>
   execute (GetMarket 7) \<lparr>msg_sender = 2, block_timestamp = 50\<rparr> demo_open
     = (Inr (RMarket [] 0 False False 0 0), demo_open) \<and>
   execute (GetMarket 1) \<lparr>msg_sender = 2, block_timestamp = 50\<rparr> demo_open
     = (Inr (RMarket ''Will it rain?'' 100 False False 700 300), demo_open)"
proof -
  have d: "deadline (markets demo_open 7) = 0" by (simp add: demo_defs eval_defs)
  show ?thesis
    using getMarket_total [of 7 "\<lparr>msg_sender = 2, block_timestamp = 50\<rparr>" demo_open, THEN conjunct2]
      getMarket_total [of 1 "\<lparr>msg_sender = 2, block_timestamp = 50\<rparr>" demo_open, THEN conjunct1]
      reachable_demo_open d
    by (simp add: demo_open_market)
qed

text \<open>
  The specification has \<open>getMarket\<close> fail with a not-found error for an unknown id.
  In the history of the example only market 1 exists; asked for market 7, the view
  returns the zero tuple.
\<close>

theorem getMarket_not_found_counterexample:
  "marketCount demo_open = 1 \<and> deadline (markets demo_open 7) = 0 \<and>
   fst (execute (GetMarket 7) \<lparr>msg_sender = 2, block_timestamp = 50\<rparr> demo_open)
     \<noteq> Inl MarketDoesNotExist \<and>
   fst (execute (GetMarket 7) \<lparr>msg_sender = 2, block_timestamp = 50\<rparr> demo_open)
     = Inr (RMarket [] 0 False False 0 0)"
  by (simp add: demo_defs eval_defs getMarket_def)

section \<open>C10: a resolved market without winners\<close>

text \<open>
  Claim C10.  In a reachable state, take a resolved market whose winning-side pool is
  zero (everybody staked on the losing side).  Then, after any further history \<open>xs\<close>
  of the contract, the market is still resolved with the same total pool,
  \<open>calculatePayout\<close> returns 0 for every account, and every \<open>claim\<close> on that market by
  any caller fails \<open>NoWinnings\<close> and changes nothing: no participant has a claim path
  to the escrowed pool.
\<close>

theorem no_winner_no_claim:
  "reachable s \<Longrightarrow> resolved (markets s m) \<Longrightarrow> winning_pool (markets s m) = 0 \<Longrightarrow>
   resolved (markets (run xs s) m) \<and>
   total_pool (markets (run xs s) m) = total_pool (markets s m) \<and>
   calculatePayout (run xs s) m u = Inr 0 \<and>
   execute (Claim m) e (run xs s) = (Inl NoWinnings, run xs s)"
proof -
  assume reach: "reachable s" and r: "resolved (markets s m)"
    and wp: "winning_pool (markets s m) = 0"
  let ?s' = "run xs s"
  have inv: "invariant s" by (rule reachable_invariant [OF reach])
  have inv': "invariant ?s'" by (rule invariant_run [OF inv])
  have same: "markets ?s' m = markets s m" using resolved_run [OF inv r, of xs] by simp
  have r': "resolved (markets ?s' m)" and wp': "winning_pool (markets ?s' m) = 0"
    using r wp by (simp_all add: same)
  have ex: "deadline (markets ?s' m) \<noteq> 0" by (rule invariant_resolved_exists [OF inv' r'])
  have nc: "\<not> claimed ?s' m (msg_sender e)"
    using invariantD(8) [OF inv', of m "msg_sender e"] wp' by blast
  have zero: "calculatePayout ?s' m v = Inr 0" for v
    by (rule winning_pool_zero_payout [OF wp'])
  have "execute (Claim m) e ?s' = (Inl NoWinnings, ?s')"
    by (rule claim_fails [OF invariantD(1) [OF inv'] claim_body_no_winnings [OF ex r' nc zero]])
  then show ?thesis using r' zero by (simp add: same)
qed

theorem no_winner_no_claim_witness:
  "reachable lopsided_state \<and> resolved (markets lopsided_state 1) \<and>
   winning_pool (markets lopsided_state 1) = 0 \<and> total_pool (markets lopsided_state 1) = 300 \<and>
   calculatePayout lopsided_state 1 4 = Inr 0 \<and>
   execute (Claim 1) \<lparr>msg_sender = 4, block_timestamp = 110\<rparr> lopsided_state
     = (Inl NoWinnings, lopsided_state) \<and>
   fst (execute (Claim 1) \<lparr>msg_sender = 4, block_timestamp = 130\<rparr>
     (run [Tx \<lparr>msg_sender = 1, block_timestamp = 120\<rparr> (SetFee 0)] lopsided_state))
     = Inl NoWinnings"
proof -
  have a: "resolved (markets lopsided_state 1)" "winning_pool (markets lopsided_state 1) = 0"
    "total_pool (markets lopsided_state 1) = 300"
    by (simp_all add: lopsided_state_market winning_pool_def total_pool_def)
  note t = no_winner_no_claim [OF reachable_lopsided_state a(1,2)]
  show ?thesis
    using reachable_lopsided_state a
      t [of "[]" 4 "\<lparr>msg_sender = 4, block_timestamp = 110\<rparr>"]
      t [of "[Tx \<lparr>msg_sender = 1, block_timestamp = 120\<rparr> (SetFee 0)]" 4
          "\<lparr>msg_sender = 4, block_timestamp = 130\<rparr>"]
    by simp
qed

end
